theory Spec2Isabelle
  imports Complex_Main "HOL-Library.Sublist"
begin

section \<open>JavaScript numbers\<close>

text \<open>
  A JavaScript Number is modelled as a real number or one of the three non-finite values.
  Rounding, overflow to infinity and the sign of zero are not modelled: arithmetic on
  finite values is exact real arithmetic. The non-finite values follow IEEE 754, since
  the program's control flow depends on them (\<open>Number.isFinite\<close>, comparisons with
  \<open>NaN\<close>, which are all false). An out-of-range array read gives \<open>undefined\<close>, which
  every numeric operator converts to \<open>NaN\<close>.
\<close>

datatype jsnum = Fin real | PInf | NInf | NaN

fun isFinite :: "jsnum \<Rightarrow> bool" where
  "isFinite (Fin _) = True"
| "isFinite _ = False"

text \<open>\<open>a > b\<close>\<close>
fun jgt :: "jsnum \<Rightarrow> jsnum \<Rightarrow> bool" where
  "jgt (Fin a) (Fin b) = (a > b)"
| "jgt NaN _ = False"
| "jgt _ NaN = False"
| "jgt PInf PInf = False"
| "jgt PInf _ = True"
| "jgt NInf _ = False"
| "jgt (Fin _) PInf = False"
| "jgt (Fin _) NInf = True"

text \<open>\<open>a >= b\<close>\<close>
fun jge :: "jsnum \<Rightarrow> jsnum \<Rightarrow> bool" where
  "jge (Fin a) (Fin b) = (a \<ge> b)"
| "jge NaN _ = False"
| "jge _ NaN = False"
| "jge PInf _ = True"
| "jge NInf NInf = True"
| "jge NInf _ = False"
| "jge (Fin _) PInf = False"
| "jge (Fin _) NInf = True"

text \<open>\<open>a < b\<close> and \<open>a <= b\<close>\<close>
definition jlt :: "jsnum \<Rightarrow> jsnum \<Rightarrow> bool" where
  "jlt a b = jgt b a"

definition jle :: "jsnum \<Rightarrow> jsnum \<Rightarrow> bool" where
  "jle a b = jge b a"

fun jneg :: "jsnum \<Rightarrow> jsnum" where
  "jneg (Fin a) = Fin (- a)"
| "jneg PInf = NInf"
| "jneg NInf = PInf"
| "jneg NaN = NaN"

fun jadd :: "jsnum \<Rightarrow> jsnum \<Rightarrow> jsnum" where
  "jadd (Fin a) (Fin b) = Fin (a + b)"
| "jadd NaN _ = NaN"
| "jadd _ NaN = NaN"
| "jadd PInf NInf = NaN"
| "jadd NInf PInf = NaN"
| "jadd PInf _ = PInf"
| "jadd NInf _ = NInf"
| "jadd (Fin _) PInf = PInf"
| "jadd (Fin _) NInf = NInf"

definition jsub :: "jsnum \<Rightarrow> jsnum \<Rightarrow> jsnum" where
  "jsub a b = jadd a (jneg b)"

text \<open>The sign of a value: 1, -1, or 0 for zero; used for products and quotients with infinities.\<close>
fun jsign :: "jsnum \<Rightarrow> int" where
  "jsign (Fin a) = (if a > 0 then 1 else if a < 0 then -1 else 0)"
| "jsign PInf = 1"
| "jsign NInf = -1"
| "jsign NaN = 0"

definition infOfSign :: "int \<Rightarrow> jsnum" where
  "infOfSign s = (if s > 0 then PInf else if s < 0 then NInf else NaN)"

fun jmul :: "jsnum \<Rightarrow> jsnum \<Rightarrow> jsnum" where
  "jmul (Fin a) (Fin b) = Fin (a * b)"
| "jmul NaN _ = NaN"
| "jmul _ NaN = NaN"
| "jmul a b = infOfSign (jsign a * jsign b)"

text \<open>
  Division. A finite value divided by zero is an infinity of the dividend's sign (the
  divisor is taken as \<open>+0\<close>), and \<open>0/0\<close> is \<open>NaN\<close>; HOL's \<open>x / 0 = 0\<close> is never used.
\<close>
fun jdiv :: "jsnum \<Rightarrow> jsnum \<Rightarrow> jsnum" where
  "jdiv (Fin a) (Fin b) = (if b \<noteq> 0 then Fin (a / b) else infOfSign (jsign (Fin a)))"
| "jdiv NaN _ = NaN"
| "jdiv _ NaN = NaN"
| "jdiv (Fin _) PInf = Fin 0"
| "jdiv (Fin _) NInf = Fin 0"
| "jdiv a (Fin b) = infOfSign (jsign a * (if b < 0 then -1 else 1))"
| "jdiv _ _ = NaN"

fun jabs :: "jsnum \<Rightarrow> jsnum" where
  "jabs (Fin a) = Fin \<bar>a\<bar>"
| "jabs PInf = PInf"
| "jabs NInf = PInf"
| "jabs NaN = NaN"

fun jsqrt :: "jsnum \<Rightarrow> jsnum" where
  "jsqrt (Fin a) = (if a \<ge> 0 then Fin (sqrt a) else NaN)"
| "jsqrt PInf = PInf"
| "jsqrt NInf = NaN"
| "jsqrt NaN = NaN"

text \<open>\<open>Math.round\<close> on a finite number: round half up.\<close>
definition js_round :: "real \<Rightarrow> int" where
  "js_round x = \<lfloor>x + 1 / 2\<rfloor>"

text \<open>Reading a typed array: \<open>undefined\<close> (here \<open>NaN\<close>) outside the array.\<close>
definition arrayGet :: "jsnum list \<Rightarrow> int \<Rightarrow> jsnum" where
  "arrayGet xs i = (if 0 \<le> i \<and> i < int (length xs) then xs ! nat i else NaN)"

section \<open>Robust statistics\<close>

text \<open>\<open>Array.from(arr).filter(Number.isFinite)\<close>: the finite entries, in order.\<close>
fun finites :: "jsnum list \<Rightarrow> real list" where
  "finites [] = []"
| "finites (Fin r # xs) = r # finites xs"
| "finites (_ # xs) = finites xs"

definition median :: "jsnum list \<Rightarrow> jsnum" where
  "median arr =
     (let a = sort (finites arr); mid = length a div 2
      in if length a = 0 then NaN
         else if length a mod 2 = 0 then Fin ((a ! (mid - 1) + a ! mid) / 2)
         else Fin (a ! mid))"

text \<open>\<open>mad\<close> as in the variants with a peak fallback: no guard on the median.\<close>
definition mad :: "jsnum list \<Rightarrow> jsnum" where
  "mad arr = (let med = median arr in median (map (\<lambda>v. jabs (jsub v med)) arr))"

definition percentile :: "jsnum list \<Rightarrow> real \<Rightarrow> jsnum" where
  "percentile arr p =
     (let a = sort (finites arr)
      in if length a = 0 then NaN
         else
           (let pos = (p / 100) * (real (length a) - 1);
                i0 = \<lfloor>pos\<rfloor>;
                i1 = min (int (length a) - 1) (i0 + 1);
                w = pos - real_of_int i0
            in if 0 \<le> i0 \<and> i0 < int (length a) \<and> 0 \<le> i1
               then Fin (a ! nat i0 * (1 - w) + a ! nat i1 * w)
               else NaN))"

section \<open>Bursts and peaks\<close>

text \<open>
  \<open>risingEdges(mask)\<close>: the starts and the exclusive ends of the runs of \<open>true\<close>, paired
  up to the shorter of the two lists. On an empty mask \<open>mask[0]\<close> is \<open>undefined\<close>, which
  is falsy.
\<close>
definition risingEdges :: "bool list \<Rightarrow> (nat \<times> nat) list" where
  "risingEdges msk =
     (let n = length msk;
          starts = filter (\<lambda>i. \<not> (msk ! (i - 1)) \<and> (msk ! i)) [1..<n];
          ends = filter (\<lambda>i. (msk ! (i - 1)) \<and> \<not> (msk ! i)) [1..<n];
          starts0 = (if msk \<noteq> [] \<and> (msk ! 0) then 0 # starts else starts);
          ends0 = (if msk \<noteq> [] \<and> (msk ! (n - 1)) then ends @ [n] else ends)
      in zip starts0 ends0)"

definition localMaxima :: "jsnum list \<Rightarrow> nat list" where
  "localMaxima y =
     filter (\<lambda>i. jgt (y ! i) (y ! (i - 1)) \<and> jge (y ! i) (y ! (i + 1))) [1..<length y - 1]"

text \<open>
  \<open>peaks.sort((i, j) => y[j] - y[i])\<close>: a stable sort by descending amplitude, as an
  insertion sort from the right.
\<close>
fun insertByAmp :: "jsnum list \<Rightarrow> nat \<Rightarrow> nat list \<Rightarrow> nat list" where
  "insertByAmp y i [] = [i]"
| "insertByAmp y i (j # js) =
     (if jge (y ! i) (y ! j) then i # j # js else j # insertByAmp y i js)"

definition sortByAmpDesc :: "jsnum list \<Rightarrow> nat list \<Rightarrow> nat list" where
  "sortByAmpDesc y peaks = foldr (insertByAmp y) peaks []"

text \<open>The greedy loop of \<open>pickPeaksGreedy\<close>; \<open>maxCount\<close> stops it only when it is truthy.\<close>
fun greedyPick :: "nat list \<Rightarrow> nat list \<Rightarrow> int \<Rightarrow> int option \<Rightarrow> nat list" where
  "greedyPick chosen [] minDist maxCount = chosen"
| "greedyPick chosen (idx # rest) minDist maxCount =
     (if list_all (\<lambda>c. \<not> \<bar>int idx - int c\<bar> < minDist) chosen
      then
        (let chosen' = chosen @ [idx]
         in if (case maxCount of None \<Rightarrow> False
                | Some mc \<Rightarrow> mc \<noteq> 0 \<and> int (length chosen') \<ge> mc)
            then chosen'
            else greedyPick chosen' rest minDist maxCount)
      else greedyPick chosen rest minDist maxCount)"

definition pickPeaksGreedy :: "jsnum list \<Rightarrow> int \<Rightarrow> jsnum \<Rightarrow> int option \<Rightarrow> nat list" where
  "pickPeaksGreedy y minDist thr maxCount =
     sort (greedyPick [] (sortByAmpDesc y (filter (\<lambda>i. jgt (y ! i) thr) (localMaxima y)))
             minDist maxCount)"

fun refineToOnset :: "jsnum list \<Rightarrow> nat \<Rightarrow> jsnum \<Rightarrow> nat" where
  "refineToOnset y 0 thrOff = 0"
| "refineToOnset y (Suc i) thrOff =
     (if jgt (arrayGet y (int (Suc i))) thrOff then refineToOnset y i thrOff else Suc i)"

section \<open>Merging of close events\<close>

text \<open>
  The loop of \<open>applyOffsetAndMerge\<close> over the sorted, shifted indices: \<open>merged\<close> is kept
  in source order, and an index is pushed when it lies at least \<open>minGap\<close> after the last
  one kept.
\<close>
fun mergeLoop :: "int list \<Rightarrow> int list \<Rightarrow> int \<Rightarrow> int list" where
  "mergeLoop merged [] minGap = merged"
| "mergeLoop merged (h # hs) minGap =
     (if h - last merged \<ge> minGap then mergeLoop (merged @ [h]) hs minGap
      else mergeLoop merged hs minGap)"

text \<open>
  \<open>applyOffsetAndMerge(hsRaw, offset, minGap, nMax)\<close>. When every shifted index falls
  outside \<open>[0, nMax)\<close> the source reads \<open>hs[0]\<close> of an empty array and returns the
  one-element array \<open>[undefined]\<close>; \<open>None\<close> stands for that \<open>undefined\<close>.
\<close>
definition applyOffsetAndMerge :: "int list \<Rightarrow> int \<Rightarrow> int \<Rightarrow> int \<Rightarrow> int option list" where
  "applyOffsetAndMerge hsRaw offset minGap nMax =
     (if hsRaw = [] then []
      else
        (case sort (filter (\<lambda>v. v \<ge> 0 \<and> v < nMax) (map (\<lambda>v. v + offset) hsRaw)) of
           [] \<Rightarrow> [None]
         | h0 # rest \<Rightarrow> map Some (mergeLoop [h0] rest minGap)))"

text \<open>The gap invariant as the code enforces it: each event lies at least \<open>minGap\<close> after its predecessor.\<close>
fun gapsAtLeast :: "int \<Rightarrow> int list \<Rightarrow> bool" where
  "gapsAtLeast g [] = True"
| "gapsAtLeast g [x] = True"
| "gapsAtLeast g (x # y # ys) = (y - x \<ge> g \<and> gapsAtLeast g (y # ys))"

section \<open>Event detection with a peak fallback\<close>

text \<open>
  The detector of the variant with video assistance: a sweep of the threshold
  multiplier over burst onsets, then peak picking when the sweep gives nothing.
  The parameters read from the page (\<open>fs\<close> and the millisecond settings) are finite
  numbers here; \<open>expectedCount\<close> is \<open>null\<close> or an integer.
\<close>

datatype error =
    DetectionFailure
  | InsufficientData_ratio
  | InsufficientData_short
  | ConfigurationError_hp
  | ConfigurationError_lp

text \<open>The field \<open>k\<close> of a result: the winning multiplier, or the name of the fallback.\<close>
datatype kTag = KNum real | PeakFallback | PeakDirect | TARef

record detection =
  det_k :: kTag
  det_thr :: jsnum
  det_hs :: "int list"
  det_score :: jsnum

record hsOpts =
  expectedCount :: "int option"
  minBurstMs :: real
  minGapMs :: real
  offsetMs :: real
  plausibleStep :: "real \<times> real"

text \<open>The intervals \<open>(hs[i] - hs[i-1]) / fs\<close>, and \<open>reduce((a, b) => a + b, 0)\<close>.\<close>
definition intervalsOf :: "int list \<Rightarrow> real \<Rightarrow> jsnum list" where
  "intervalsOf hs fs = map (\<lambda>(a, b). jdiv (Fin (real_of_int (b - a))) (Fin fs)) (zip hs (tl hs))"

definition jsum :: "jsnum list \<Rightarrow> jsnum" where
  "jsum xs = foldl jadd (Fin 0) xs"

text \<open>
  \<open>scoreHS\<close>. The variants differ only in the stride that the median interval is compared
  with (0.7 s or 1.0 s), which is the first argument here.
\<close>
definition scoreHS :: "real \<Rightarrow> int list \<Rightarrow> real \<Rightarrow> real \<times> real \<Rightarrow> int option \<Rightarrow> jsnum" where
  "scoreHS target hs fs plausible expected =
     (if length hs < 2 then PInf
      else
        (let intervals = intervalsOf hs fs;
             n = Fin (real (length intervals));
             meanInt = jdiv (jsum intervals) n;
             medInt = median intervals;
             sdInt = jsqrt (jdiv (foldl (\<lambda>a b. jadd a (jmul (jsub b meanInt) (jsub b meanInt)))
                                   (Fin 0) intervals) n);
             cv = jdiv sdInt (jadd meanInt (Fin (1 / 10 ^ 12)));
             bad = jdiv (Fin (real (length
                     (filter (\<lambda>v. jlt v (Fin (fst plausible)) \<or> jgt v (Fin (snd plausible)))
                        intervals)))) n;
             score = jadd (jadd (jmul (Fin 5) bad) (jmul (Fin 2) cv))
                       (jmul (Fin 0.5) (jabs (jsub medInt (Fin target))))
         in case expected of
              None \<Rightarrow> score
            | Some ec \<Rightarrow> jadd score (jmul (Fin 0.8) (Fin \<bar>real (length hs) - real_of_int ec\<bar>))))"

text \<open>The multipliers 1.2, 1.3, ..., 4.0 that the loop \<open>for (k = 1.2; k <= 4.0 + 1e-9; k += 0.1)\<close> pushes after rounding to two decimals.\<close>
definition ks_onset :: "real list" where
  "ks_onset = map (\<lambda>n. (12 + real n) / 10) [0..<29]"

text \<open>\<open>if (best === null || sc < best.score) best = candidate\<close>; a skipped multiplier keeps \<open>best\<close>.\<close>
definition keepBetter :: "detection option \<Rightarrow> detection option \<Rightarrow> detection option" where
  "keepBetter best cand =
     (case cand of
        None \<Rightarrow> best
      | Some c \<Rightarrow>
          (case best of
             None \<Rightarrow> Some c
           | Some b \<Rightarrow> if jlt (det_score c) (det_score b) then Some c else Some b))"

text \<open>
  The events of a merged list. \<open>applyOffsetAndMerge\<close> returns an \<open>undefined\<close> entry only
  in a list of length one, and the detector uses a list only when it has two entries,
  so this is applied to lists without \<open>undefined\<close>.
\<close>
definition events :: "int option list \<Rightarrow> int list" where
  "events hs = map the hs"

text \<open>One pass of the sweep: the body of \<open>for (const k of ks)\<close>, \<open>None\<close> for \<open>continue\<close>.\<close>
definition onsetCandidate_P2 ::
  "jsnum list \<Rightarrow> real \<Rightarrow> hsOpts \<Rightarrow> jsnum \<Rightarrow> jsnum \<Rightarrow> real \<Rightarrow> detection option" where
  "onsetCandidate_P2 env fs opts med m k =
     (let minBurst = js_round (fs * minBurstMs opts / 1000);
          minGap = js_round (fs * minGapMs opts / 1000);
          offset = js_round (fs * offsetMs opts / 1000);
          thr = jadd med (jmul (Fin k) m);
          msk = map (\<lambda>v. jgt v thr) env;
          segs = filter (\<lambda>(s, e). int e - int s \<ge> minBurst) (risingEdges msk)
      in if segs = [] then None
         else
           (let hs = applyOffsetAndMerge (map (\<lambda>(s, e). int s) segs) offset minGap
                       (int (length env))
            in if length hs < 2 then None
               else Some \<lparr>det_k = KNum k, det_thr = thr, det_hs = events hs,
                      det_score = scoreHS 0.7 (events hs) fs (plausibleStep opts)
                                    (expectedCount opts)\<rparr>))"

text \<open>The scale \<open>m\<close>: the MAD, or \<open>(P75 - P25) / 1.349\<close> when the MAD is not finite or below \<open>1e-12\<close>.\<close>
definition scale_P2 :: "jsnum list \<Rightarrow> jsnum" where
  "scale_P2 env =
     (let m = mad env
      in if \<not> isFinite m \<or> jlt m (Fin (1 / 10 ^ 12))
         then jdiv (jsub (percentile env 75) (percentile env 25)) (Fin 1.349)
         else m)"

definition detectHS_P2 :: "jsnum list \<Rightarrow> real \<Rightarrow> hsOpts \<Rightarrow> error + detection" where
  "detectHS_P2 env fs opts =
     (let minGap = js_round (fs * minGapMs opts / 1000);
          offset = js_round (fs * offsetMs opts / 1000);
          med = median env;
          m = scale_P2 env;
          best = (if isFinite m \<and> jgt m (Fin (1 / 10 ^ 12))
                  then foldl (\<lambda>best k. keepBetter best (onsetCandidate_P2 env fs opts med m k))
                         None ks_onset
                  else None)
      in case best of
           Some b \<Rightarrow> Inr b
         | None \<Rightarrow>
             (let thrPeak = percentile env 80;
                  thrOff = percentile env 60;
                  peaks = pickPeaksGreedy env minGap thrPeak (expectedCount opts);
                  hs = applyOffsetAndMerge (map (\<lambda>p. int (refineToOnset env p thrOff)) peaks)
                         offset minGap (int (length env))
              in if length peaks \<ge> 2 \<and> length hs \<ge> 2
                 then Inr \<lparr>det_k = PeakFallback, det_thr = thrPeak, det_hs = events hs,
                        det_score = scoreHS 0.7 (events hs) fs (plausibleStep opts)
                                      (expectedCount opts)\<rparr>
                 else
                   (let peaks2 = applyOffsetAndMerge (map int peaks) offset minGap
                                   (int (length env))
                    in if length peaks2 \<ge> 2
                       then Inr \<lparr>det_k = PeakDirect, det_thr = thrPeak, det_hs = events peaks2,
                              det_score = scoreHS 0.7 (events peaks2) fs (plausibleStep opts)
                                            (expectedCount opts)\<rparr>
                       else Inl DetectionFailure)))"

section \<open>Event detection by burst onsets only\<close>

text \<open>
  The onset detector without a fallback: the threshold is \<open>med + k * mad(env)\<close>, close
  onsets are merged before the offset is applied, and shifted events that leave the
  envelope are dropped. Its score is computed inline by the formula of \<open>scoreHS\<close>
  with the stride 0.7 s.
\<close>
definition onsetCandidate_A3 ::
  "jsnum list \<Rightarrow> real \<Rightarrow> hsOpts \<Rightarrow> jsnum \<Rightarrow> jsnum \<Rightarrow> real \<Rightarrow> detection option" where
  "onsetCandidate_A3 env fs opts med m k =
     (let minBurst = js_round (fs * minBurstMs opts / 1000);
          minGap = js_round (fs * minGapMs opts / 1000);
          offset = js_round (fs * offsetMs opts / 1000);
          thr = jadd med (jmul (Fin k) m);
          msk = map (\<lambda>v. jgt v thr) env;
          segs = filter (\<lambda>(s, e). int e - int s \<ge> minBurst) (risingEdges msk)
      in case sort (map (\<lambda>(s, e). int s) segs) of
           [] \<Rightarrow> None
         | h0 # rest \<Rightarrow>
             (let merged = mergeLoop [h0] rest minGap;
                  hs = filter (\<lambda>v. v \<ge> 0 \<and> v < int (length env)) (map (\<lambda>v. v + offset) merged)
              in if length hs < 2 then None
                 else Some \<lparr>det_k = KNum k, det_thr = thr, det_hs = hs,
                        det_score = scoreHS 0.7 hs fs (plausibleStep opts) (expectedCount opts)\<rparr>))"

definition detectHS_A3 :: "jsnum list \<Rightarrow> real \<Rightarrow> hsOpts \<Rightarrow> error + detection" where
  "detectHS_A3 env fs opts =
     (let med = median env;
          m = mad env
      in case foldl (\<lambda>best k. keepBetter best (onsetCandidate_A3 env fs opts med m k))
                None ks_onset of
           None \<Rightarrow> Inl DetectionFailure
         | Some b \<Rightarrow> Inr b)"

section \<open>Event detection near burst peaks\<close>

text \<open>
  The peak-based detector: each burst gives the point of steepest rise near its peak,
  with the burst's peak amplitude as its strength; close events are merged by strength
  and a doubled sequence is thinned to every other event.
\<close>

record hsOpts_A1 = hsOpts +
  enableEveryOtherFix :: bool
  peakBackMs :: real
  peakForwardMs :: real

definition madScalar :: "jsnum list \<Rightarrow> jsnum" where
  "madScalar arr =
     (let med = median arr
      in if \<not> isFinite med then NaN else median (map (\<lambda>v. jabs (jsub v med)) arr))"

text \<open>
  The scale \<open>md\<close> after the rescue for a tiny MAD: the spread between the entries at
  \<open>floor(0.25 n)\<close> and \<open>floor(0.75 n)\<close> of the sorted finite samples over 1.349 when
  there are at least ten of them, otherwise \<open>1e-6\<close>.
\<close>
definition scale_A1 :: "jsnum list \<Rightarrow> jsnum" where
  "scale_A1 env =
     (let md = madScalar env
      in if \<not> isFinite md \<or> jlt md (Fin (1 / 10 ^ 12))
         then
           (let a = sort (finites env)
            in if length a \<ge> 10
               then Fin ((a ! nat \<lfloor>real (length a) * 0.75\<rfloor> - a ! nat \<lfloor>real (length a) * 0.25\<rfloor>) / 1.349)
               else Fin (1 / 10 ^ 6))
         else md)"

text \<open>The multipliers 2.0, 2.25, ..., 6.0 of \<open>for (k = 2.0; k <= 6.0 + 1e-12; k += 0.25)\<close>.\<close>
definition ks_peak :: "real list" where
  "ks_peak = map (\<lambda>n. 2 + real n / 4) [0..<17]"

text \<open>
  \<open>mergeByMinGap(hs, strength)\<close>. The two arrays are built together and have the same
  length; they are one list of pairs (index, strength) here. An event closer than
  \<open>minGap\<close> to the last kept one replaces it when it is strictly stronger, and is
  dropped otherwise.
\<close>
fun mergeByMinGapLoop :: "int \<Rightarrow> (int \<times> jsnum) list \<Rightarrow> (int \<times> jsnum) list \<Rightarrow> (int \<times> jsnum) list" where
  "mergeByMinGapLoop minGap out [] = out"
| "mergeByMinGapLoop minGap out ((h, s) # rest) =
     (if h - fst (last out) < minGap
      then
        (if jgt s (snd (last out)) then mergeByMinGapLoop minGap (butlast out @ [(h, s)]) rest
         else mergeByMinGapLoop minGap out rest)
      else mergeByMinGapLoop minGap (out @ [(h, s)]) rest)"

definition mergeByMinGap :: "int \<Rightarrow> (int \<times> jsnum) list \<Rightarrow> (int \<times> jsnum) list" where
  "mergeByMinGap minGap evs =
     (case evs of [] \<Rightarrow> [] | e # rest \<Rightarrow> mergeByMinGapLoop minGap [e] rest)"

text \<open>\<open>hs.filter((_, i) => i % m === off)\<close>: every \<open>m\<close>-th event, starting at \<open>off\<close>.\<close>
definition everyNth :: "nat \<Rightarrow> nat \<Rightarrow> 'a list \<Rightarrow> 'a list" where
  "everyNth m off hs = map snd (filter (\<lambda>(i, x). i mod m = off) (enumerate 0 hs))"

definition chooseEveryOtherIfDouble_A1 :: "real \<Rightarrow> hsOpts_A1 \<Rightarrow> int list \<Rightarrow> int list" where
  "chooseEveryOtherIfDouble_A1 fs opts hs =
     (if \<not> enableEveryOtherFix opts \<or> length hs < 6 then hs
      else
        (let medInt = median (intervalsOf hs fs);
             looksDouble =
               ((isFinite medInt \<and> jlt medInt (Fin 0.5)) \<or>
                (case expectedCount opts of
                   None \<Rightarrow> False
                 | Some ec \<Rightarrow> real (length hs) \<ge> real_of_int ec * 1.6))
         in if \<not> looksDouble then hs
            else
              (let candA = everyNth 2 0 hs;
                   candB = everyNth 2 1 hs
               in if jle (scoreHS 1.0 candA fs (plausibleStep opts) (expectedCount opts))
                         (scoreHS 1.0 candB fs (plausibleStep opts) (expectedCount opts))
                  then candA else candB)))"

text \<open>\<open>hsAroundPeak\<close>: the index of the steepest rise in a window around the peak.\<close>
definition hsAroundPeak :: "jsnum list \<Rightarrow> int \<Rightarrow> int \<Rightarrow> int \<Rightarrow> int \<Rightarrow> int \<Rightarrow> int" where
  "hsAroundPeak env back fwd segStart segEnd peakIdx =
     (let w0 = max (segStart + 1) (peakIdx - back);
          w1 = min (segEnd - 1) (peakIdx + fwd)
      in fst (foldl (\<lambda>(bestI, bestSlope) i.
                 (let slope = jsub (arrayGet env i) (arrayGet env (i - 1))
                  in if jgt slope bestSlope then (i, slope) else (bestI, bestSlope)))
               (w0, NInf) [w0..w1]))"

text \<open>The first maximum of the envelope in a burst \<open>[s, e]\<close>, as (index, value).\<close>
definition burstPeak :: "jsnum list \<Rightarrow> int \<Rightarrow> int \<Rightarrow> int \<times> jsnum" where
  "burstPeak env s e =
     foldl (\<lambda>(p, pv) i. (let v = arrayGet env i in if jgt v pv then (i, v) else (p, pv)))
       (s, NInf) [s..e]"

definition peakCandidate_A1 ::
  "jsnum list \<Rightarrow> real \<Rightarrow> hsOpts_A1 \<Rightarrow> jsnum \<Rightarrow> jsnum \<Rightarrow> real \<Rightarrow> detection option" where
  "peakCandidate_A1 env fs opts med md k =
     (let minBurst = max 1 (js_round ((minBurstMs opts / 1000) * fs));
          minGap = max 1 (js_round ((minGapMs opts / 1000) * fs));
          offset = js_round ((offsetMs opts / 1000) * fs);
          back = js_round ((peakBackMs opts / 1000) * fs);
          fwd = js_round ((peakForwardMs opts / 1000) * fs);
          thr = jadd med (jmul (Fin k) (jmul md (Fin 1.4826)));
          msk = map (\<lambda>v. jgt v thr) env;
          segs = filter (\<lambda>(s, e). e - s + 1 \<ge> minBurst)
                   (map (\<lambda>(s, e). (s, max s e))
                      (map (\<lambda>(s, e). (int s, int e - 1)) (risingEdges msk)))
      in if segs = [] then None
         else
           (let evs = filter (\<lambda>(h, pv). h \<ge> 0 \<and> h < int (length env))
                        (map (\<lambda>(s, e).
                            (let (p, pv) = burstPeak env s e
                             in (hsAroundPeak env back fwd s e p + offset, pv))) segs);
                merged = mergeByMinGap minGap (sort_key fst evs);
                hsFinal = chooseEveryOtherIfDouble_A1 fs opts (map fst merged)
            in if length hsFinal < 2 then None
               else Some \<lparr>det_k = KNum k, det_thr = thr, det_hs = hsFinal,
                      det_score = scoreHS 1.0 hsFinal fs (plausibleStep opts)
                                    (expectedCount opts)\<rparr>))"

definition detectHS_A1 :: "jsnum list \<Rightarrow> real \<Rightarrow> hsOpts_A1 \<Rightarrow> error + detection" where
  "detectHS_A1 env fs opts =
     (let med = median env;
          md = scale_A1 env
      in case foldl (\<lambda>best k. keepBetter best (peakCandidate_A1 env fs opts med md k))
                None ks_peak of
           None \<Rightarrow> Inl DetectionFailure
         | Some b \<Rightarrow> if length (det_hs b) < 2 then Inl DetectionFailure else Inr b)"

section \<open>Percent-peak normalisation and cycle statistics\<close>

text \<open>
  \<open>Math.max(...env)\<close>: \<open>-Infinity\<close> for an empty array and \<open>NaN\<close> as soon as one entry
  is \<open>NaN\<close>. The engine's limit on the number of spread arguments is not modelled.
\<close>
definition jmax2 :: "jsnum \<Rightarrow> jsnum \<Rightarrow> jsnum" where
  "jmax2 a b = (if a = NaN \<or> b = NaN then NaN else if jgt b a then b else a)"

definition mathMax :: "jsnum list \<Rightarrow> jsnum" where
  "mathMax xs = foldl jmax2 NInf xs"

text \<open>
  The reference of \<open>percentPeak\<close>: with two or more events, the running maximum of
  \<open>env[i]\<close> for \<open>i\<close> from the first event up to, not including, the last one;
  otherwise the maximum of the whole envelope.
\<close>
definition peakReference :: "jsnum list \<Rightarrow> int list \<Rightarrow> jsnum" where
  "peakReference env hs =
     (if length hs \<ge> 2
      then foldl (\<lambda>mx i. if jgt (arrayGet env i) mx then arrayGet env i else mx) NInf
             [hd hs..last hs - 1]
      else mathMax env)"

definition percentPeak :: "jsnum list \<Rightarrow> int list \<Rightarrow> jsnum list" where
  "percentPeak env hs =
     (let ref = peakReference env hs
      in if \<not> isFinite ref \<or> jle ref (Fin 0) then replicate (length env) NaN
         else map (\<lambda>v. jmul (jdiv v ref) (Fin 100)) env)"

definition linspace :: "real \<Rightarrow> real \<Rightarrow> nat \<Rightarrow> jsnum list" where
  "linspace a b n =
     (let step = jdiv (Fin (b - a)) (Fin (real n - 1))
      in map (\<lambda>i. jadd (Fin a) (jmul step (Fin (real i)))) [0..<n])"

text \<open>\<open>TypedArray.prototype.subarray(s, e)\<close>: negative positions count from the end, and both are clamped to the array.\<close>
definition subarray :: "'a list \<Rightarrow> int \<Rightarrow> int \<Rightarrow> 'a list" where
  "subarray y s e =
     (let n = int (length y);
          b = (if s < 0 then max (n + s) 0 else min s n);
          f = (if e < 0 then max (n + e) 0 else min e n)
      in take (nat (f - b)) (drop (nat b) y))"

text \<open>One cycle: the segment \<open>[s, e)\<close> of \<open>y\<close> resampled by linear interpolation onto \<open>nPoints\<close> points.\<close>
definition cycleOf :: "jsnum list \<Rightarrow> int \<Rightarrow> int \<Rightarrow> nat \<Rightarrow> jsnum list" where
  "cycleOf y s e nPoints =
     (let segLen = e - s;
          yseg = subarray y s e;
          lst = segLen - 1
      in map (\<lambda>j.
            (case jmul (jdiv (Fin (real j)) (Fin (real nPoints - 1))) (Fin (real_of_int lst)) of
               Fin pos \<Rightarrow>
                 (let i0 = \<lfloor>pos\<rfloor>;
                      i1 = min lst (i0 + 1);
                      w = pos - real_of_int i0
                  in jadd (jmul (arrayGet yseg i0) (Fin (1 - w))) (jmul (arrayGet yseg i1) (Fin w)))
             | _ \<Rightarrow> NaN))
           [0..<nPoints])"

definition normalizeCycles :: "jsnum list \<Rightarrow> int list \<Rightarrow> nat \<Rightarrow> jsnum list \<times> jsnum list list" where
  "normalizeCycles y hs nPoints =
     (linspace 0 100 nPoints,
      map (\<lambda>(s, e). cycleOf y s e nPoints) (filter (\<lambda>(s, e). \<not> e \<le> s + 2) (zip hs (tl hs))))"

text \<open>
  \<open>meanAndSD(cycles)\<close>: at each grid point the finite contributions are summed and
  counted; the mean is their sum over the count, and the deviation is the root of
  the summed squared deviations over the same count.
\<close>
definition column :: "jsnum list list \<Rightarrow> nat \<Rightarrow> jsnum list" where
  "column cycles j = map (\<lambda>c. arrayGet c (int j)) cycles"

definition meanAt :: "jsnum list list \<Rightarrow> nat \<Rightarrow> jsnum" where
  "meanAt cycles j =
     (let vs = finites (column cycles j)
      in if length vs > 0 then jdiv (Fin (foldl (+) 0 vs)) (Fin (real (length vs))) else NaN)"

definition sdAt :: "jsnum list list \<Rightarrow> nat \<Rightarrow> jsnum" where
  "sdAt cycles j =
     (let vs = finites (column cycles j);
          mu = meanAt cycles j;
          s = foldl (\<lambda>s v. jadd s (jmul (jsub (Fin v) mu) (jsub (Fin v) mu))) (Fin 0) vs
      in if length vs > 1 then jsqrt (jdiv s (Fin (real (length vs)))) else NaN)"

definition meanAndSD :: "jsnum list list \<Rightarrow> jsnum list \<times> jsnum list" where
  "meanAndSD cycles =
     (if cycles = [] then ([], [])
      else
        (let m = length (hd cycles)
         in (map (meanAt cycles) [0..<m], map (sdAt cycles) [0..<m])))"

text \<open>
  \<open>meanStdOfCycles(cycles)\<close> of the variant with manual events: every contribution is
  summed, finite or not, and the squared deviations are divided by \<open>max(1, n - 1)\<close>.
  The argument is the list of the cycles' \<open>y\<close> arrays; \<open>None\<close> is the \<open>null\<close> returned
  for no cycle.
\<close>
definition meanStdOfCycles :: "jsnum list list \<Rightarrow> (jsnum list \<times> jsnum list) option" where
  "meanStdOfCycles cycles =
     (if cycles = [] then None
      else
        (let n = length cycles;
             len = length (hd cycles);
             m = map (\<lambda>i. jdiv (foldl (\<lambda>a c. jadd a (arrayGet c (int i))) (Fin 0) cycles)
                          (Fin (real n))) [0..<len];
             s = map (\<lambda>i. jsqrt (jdiv
                          (foldl (\<lambda>a c. (let d = jsub (arrayGet c (int i)) (m ! i)
                                          in jadd a (jmul d d))) (Fin 0) cycles)
                          (Fin (real (max 1 (n - 1)))))) [0..<len]
         in Some (m, s)))"

text \<open>The statistics in the words of the specification, over the finite contributions at a grid point.\<close>
definition sampleSD :: "real list \<Rightarrow> real" where
  "sampleSD vs =
     sqrt ((\<Sum>v\<leftarrow>vs. (v - sum_list vs / real (length vs)) ^ 2) / (real (length vs) - 1))"

definition populationSD :: "real list \<Rightarrow> real" where
  "populationSD vs =
     sqrt ((\<Sum>v\<leftarrow>vs. (v - sum_list vs / real (length vs)) ^ 2) / real (length vs))"

text \<open>The result of a pipeline run.\<close>
record pipelineResult =
  res_t :: "jsnum list"
  res_envRaw :: "jsnum list"
  res_envPct :: "jsnum list"
  res_hs :: "int list"
  res_k :: kTag
  res_thr :: jsnum
  res_grid :: "jsnum list"
  res_cycles :: "jsnum list list"
  res_mean :: "jsnum list"
  res_sd :: "jsnum list"

text \<open>\<open>applyHsToExistingResult\<close>: events of another channel are filtered to the envelope before use.\<close>
definition applyHsToExistingResult ::
  "'a pipelineResult_scheme \<Rightarrow> int list \<Rightarrow> nat \<Rightarrow> 'a pipelineResult_scheme" where
  "applyHsToExistingResult res hs nPoints =
     (let hs2 = filter (\<lambda>i. i \<ge> 0 \<and> i < int (length (res_envRaw res))) hs;
          pct = percentPeak (res_envRaw res) hs2;
          cyc = normalizeCycles pct hs2 nPoints;
          ms = meanAndSD (snd cyc)
      in res\<lparr>res_hs := hs2, res_envPct := pct, res_grid := fst cyc, res_cycles := snd cyc,
              res_mean := fst ms, res_sd := snd ms, res_k := TARef\<rparr>)"

section \<open>Signal conditioning\<close>

fun jcos :: "jsnum \<Rightarrow> jsnum" where
  "jcos (Fin a) = Fin (cos a)"
| "jcos _ = NaN"

fun jsin :: "jsnum \<Rightarrow> jsnum" where
  "jsin (Fin a) = Fin (sin a)"
| "jsin _ = NaN"

datatype filterType = Lowpass | Highpass

record biquad =
  c_b0 :: jsnum
  c_b1 :: jsnum
  c_b2 :: jsnum
  c_a1 :: jsnum
  c_a2 :: jsnum

text \<open>\<open>biquadCoeffs(type, fc, fs, Q)\<close>; the type is one of the two the callers pass.\<close>
definition biquadCoeffs :: "filterType \<Rightarrow> real \<Rightarrow> real \<Rightarrow> real \<Rightarrow> biquad" where
  "biquadCoeffs ty fc fs Q =
     (let w0 = jdiv (Fin (2 * pi * fc)) (Fin fs);
          cosw0 = jcos w0;
          sinw0 = jsin w0;
          alpha = jdiv sinw0 (Fin (2 * Q));
          bs = (case ty of
                  Lowpass \<Rightarrow> (jdiv (jsub (Fin 1) cosw0) (Fin 2), jsub (Fin 1) cosw0,
                              jdiv (jsub (Fin 1) cosw0) (Fin 2))
                | Highpass \<Rightarrow> (jdiv (jadd (Fin 1) cosw0) (Fin 2), jneg (jadd (Fin 1) cosw0),
                               jdiv (jadd (Fin 1) cosw0) (Fin 2)));
          a0 = jadd (Fin 1) alpha;
          a1 = jmul (Fin (- 2)) cosw0;
          a2 = jsub (Fin 1) alpha
      in \<lparr>c_b0 = jdiv (fst bs) a0, c_b1 = jdiv (fst (snd bs)) a0, c_b2 = jdiv (snd (snd bs)) a0,
          c_a1 = jdiv a1 a0, c_a2 = jdiv a2 a0\<rparr>)"

fun biquadLoop :: "biquad \<Rightarrow> jsnum \<Rightarrow> jsnum \<Rightarrow> jsnum \<Rightarrow> jsnum \<Rightarrow> jsnum list \<Rightarrow> jsnum list" where
  "biquadLoop c x1 x2 y1 y2 [] = []"
| "biquadLoop c x1 x2 y1 y2 (x0 # xs) =
     (let y0 = jsub (jsub (jadd (jadd (jmul (c_b0 c) x0) (jmul (c_b1 c) x1)) (jmul (c_b2 c) x2))
                       (jmul (c_a1 c) y1)) (jmul (c_a2 c) y2)
      in y0 # biquadLoop c x0 x1 y0 y1 xs)"

definition biquadFilter :: "jsnum list \<Rightarrow> biquad \<Rightarrow> jsnum list" where
  "biquadFilter x c = biquadLoop c (Fin 0) (Fin 0) (Fin 0) (Fin 0) x"

definition filtfilt :: "jsnum list \<Rightarrow> biquad \<Rightarrow> jsnum list" where
  "filtfilt x coeffs = rev (biquadFilter (rev (biquadFilter x coeffs)) coeffs)"

definition butter2x :: "jsnum list \<Rightarrow> filterType \<Rightarrow> real \<Rightarrow> real \<Rightarrow> jsnum list" where
  "butter2x x ty fc fs =
     (let c = biquadCoeffs ty fc fs (1 / sqrt 2) in filtfilt (filtfilt x c) c)"

definition absArray :: "jsnum list \<Rightarrow> jsnum list" where
  "absArray x = map jabs x"

text \<open>\<open>movingRMS(x, win)\<close> with its prefix sums of squares; \<open>win\<close> is an integer.\<close>
definition movingRMS :: "jsnum list \<Rightarrow> int \<Rightarrow> jsnum list" where
  "movingRMS x win =
     (let n = int (length x);
          half = win div 2;
          sq = map (\<lambda>v. jmul v v) x;
          prefix = (\<lambda>k. if 0 \<le> k \<and> k \<le> n then foldl jadd (Fin 0) (take (nat k) sq) else NaN)
      in map (\<lambda>i. (let s = max 0 (i - half);
                        e = min n (i + half + 1)
                    in jsqrt (jdiv (jsub (prefix e) (prefix s)) (Fin (real_of_int (e - s))))))
           [0..n - 1])"

text \<open>\<open>demean\<close>: the mean of the finite samples, or 0 without any, is subtracted.\<close>
definition demean :: "jsnum list \<Rightarrow> jsnum list" where
  "demean x =
     (let vs = finites x;
          m = (if length vs > 0 then foldl (+) 0 vs / real (length vs) else 0)
      in map (\<lambda>v. jsub v (Fin m)) x)"

text \<open>\<open>mean\<close> of the hardened variant: over the finite entries, \<open>NaN\<close> without any.\<close>
definition mean_P1 :: "jsnum list \<Rightarrow> jsnum" where
  "mean_P1 arr =
     (let vs = finites arr
      in if length vs > 0 then Fin (foldl (+) 0 vs / real (length vs)) else NaN)"

definition varRatioFinite :: "jsnum list \<Rightarrow> real" where
  "varRatioFinite x =
     (if length x \<noteq> 0 then real (length (finites x)) / real (length x) else 0)"

text \<open>The samples that fill a gap of \<open>gap - 1\<close> non-finite entries between \<open>left\<close> and \<open>right\<close>.\<close>
definition interpolateGap :: "real \<Rightarrow> real \<Rightarrow> nat \<Rightarrow> jsnum list" where
  "interpolateGap left right gap =
     map (\<lambda>k. Fin (left * (1 - real k / real gap) + right * (real k / real gap))) [1..<gap]"

text \<open>
  The gap loop of \<open>sanitizeArray\<close>, from a position whose predecessor holds the finite
  value \<open>left\<close>: finite entries are kept, and a run of non-finite entries is replaced by
  the interpolation between \<open>left\<close> and the next finite entry (or \<open>left\<close> again at the
  end of the array).
\<close>
function fillGaps :: "real \<Rightarrow> jsnum list \<Rightarrow> jsnum list" where
  "fillGaps left [] = []"
| "fillGaps left (v # ys) =
     (if isFinite v then v # fillGaps (case v of Fin r \<Rightarrow> r | _ \<Rightarrow> left) ys
      else
        (let run = takeWhile (\<lambda>u. \<not> isFinite u) ys;
             rest = dropWhile (\<lambda>u. \<not> isFinite u) ys;
             gap = length run + 2;
             right = (case rest of Fin r # _ \<Rightarrow> r | _ \<Rightarrow> left)
         in interpolateGap left right gap @ fillGaps left rest))"
  by pat_completeness auto
termination
  by (relation "measure (\<lambda>(left, ys). length ys)")
     (auto simp: length_dropWhile_le le_imp_less_Suc)

definition sanitizeArray :: "jsnum list \<Rightarrow> jsnum list" where
  "sanitizeArray x =
     (let first = length (takeWhile (\<lambda>u. \<not> isFinite u) x)
      in case drop first x of
           Fin r # rest \<Rightarrow> replicate first (Fin r) @ Fin r # fillGaps r rest
         | _ \<Rightarrow> replicate (length x) (Fin 0))"

section \<open>The pipelines\<close>

record pipelineParams =
  p_hp :: real
  p_lp :: real
  p_rmsMs :: real
  p_minBurstMs :: real
  p_minGapMs :: real
  p_offsetMs :: real
  p_nPoints :: nat

record pipelineParams_A1 = pipelineParams +
  p_plausibleStep :: "real \<times> real"
  p_enableEveryOtherFix :: bool
  p_peakBackMs :: real
  p_peakForwardMs :: real

text \<open>The conditioning stage shared by the pipelines, after the mean has been removed.\<close>
definition envelopeOf :: "jsnum list \<Rightarrow> real \<Rightarrow> real \<Rightarrow> real \<Rightarrow> real \<Rightarrow> jsnum list" where
  "envelopeOf y fs hp lp rmsMs =
     (let y1 = (if hp > 0 then butter2x y Highpass hp fs else y);
          y2 = (if lp > 0 \<and> lp < fs / 2 then butter2x y1 Lowpass lp fs else y1);
          win = max 1 (js_round (fs * rmsMs / 1000))
      in movingRMS (absArray y2) win)"

text \<open>The stage after detection: percent-peak, cycles and their statistics.\<close>
definition cyclesOf :: "jsnum list \<Rightarrow> jsnum list \<Rightarrow> detection \<Rightarrow> nat \<Rightarrow> pipelineResult" where
  "cyclesOf t env hsRes nPoints =
     (let pct = percentPeak env (det_hs hsRes);
          cyc = normalizeCycles pct (det_hs hsRes) nPoints;
          ms = meanAndSD (snd cyc)
      in \<lparr>res_t = t, res_envRaw = env, res_envPct = pct, res_hs = det_hs hsRes,
          res_k = det_k hsRes, res_thr = det_thr hsRes, res_grid = fst cyc, res_cycles = snd cyc,
          res_mean = fst ms, res_sd = snd ms\<rparr>)"

text \<open>The peak-based pipeline: no check of the input; only the detector can fail.\<close>
definition computePipeline_A1 ::
  "jsnum list \<Rightarrow> jsnum list \<Rightarrow> real \<Rightarrow> pipelineParams_A1 \<Rightarrow> int option \<Rightarrow> error + pipelineResult" where
  "computePipeline_A1 t x fs params expected =
     (let env = envelopeOf (demean x) fs (p_hp params) (p_lp params) (p_rmsMs params)
      in case detectHS_A1 env fs
                \<lparr>expectedCount = expected, minBurstMs = p_minBurstMs params,
                   minGapMs = p_minGapMs params, offsetMs = p_offsetMs params,
                   plausibleStep = p_plausibleStep params,
                   enableEveryOtherFix = p_enableEveryOtherFix params,
                   peakBackMs = p_peakBackMs params, peakForwardMs = p_peakForwardMs params\<rparr> of
           Inl e \<Rightarrow> Inl e
         | Inr hsRes \<Rightarrow> Inr (cyclesOf t env hsRes (p_nPoints params)))"

text \<open>
  The score of the hardened variant: its \<open>mean\<close> skips non-finite entries, a zero or
  \<open>NaN\<close> variance counts as 0, and the count of intervals is replaced by 1 when it is 0.
\<close>
definition scoreHS_P1 :: "int list \<Rightarrow> real \<Rightarrow> real \<times> real \<Rightarrow> int option \<Rightarrow> jsnum" where
  "scoreHS_P1 hs fs plausible expected =
     (if length hs < 2 then PInf
      else
        (let ints = intervalsOf hs fs;
             meanInt = mean_P1 ints;
             medInt = median ints;
             var = mean_P1 (map (\<lambda>v. jmul (jsub v meanInt) (jsub v meanInt)) ints);
             sd = jsqrt (if var = NaN \<or> var = Fin 0 then Fin 0 else var);
             cv = jdiv sd (jadd meanInt (Fin (1 / 10 ^ 12)));
             bad = jdiv (Fin (real (length
                     (filter (\<lambda>v. jlt v (Fin (fst plausible)) \<or> jgt v (Fin (snd plausible)))
                        ints))))
                     (Fin (if length ints = 0 then 1 else real (length ints)));
             s = jadd (jadd (jmul (Fin 5) bad) (jmul (Fin 2) cv))
                   (jmul (Fin 0.5) (jabs (jsub medInt (Fin 0.7))))
         in case expected of
              None \<Rightarrow> s
            | Some ec \<Rightarrow> jadd s (jmul (Fin 0.8) (Fin \<bar>real (length hs) - real_of_int ec\<bar>))))"

definition onsetCandidate_P1 ::
  "jsnum list \<Rightarrow> real \<Rightarrow> hsOpts \<Rightarrow> jsnum \<Rightarrow> jsnum \<Rightarrow> real \<Rightarrow> detection option" where
  "onsetCandidate_P1 env fs opts med m k =
     (let minBurst = js_round (fs * minBurstMs opts / 1000);
          minGap = js_round (fs * minGapMs opts / 1000);
          offset = js_round (fs * offsetMs opts / 1000);
          thr = jadd med (jmul (Fin k) m);
          msk = map (\<lambda>v. jgt v thr) env;
          segs = filter (\<lambda>(s, e). int e - int s \<ge> minBurst) (risingEdges msk)
      in if segs = [] then None
         else
           (let hs = applyOffsetAndMerge (map (\<lambda>(s, e). int s) segs) offset minGap
                       (int (length env))
            in if length hs < 2 then None
               else Some \<lparr>det_k = KNum k, det_thr = thr, det_hs = events hs,
                      det_score = scoreHS_P1 (events hs) fs (plausibleStep opts)
                                    (expectedCount opts)\<rparr>))"

text \<open>The detector of the hardened variant: the sweep, then the peak fallback, then failure.\<close>
definition detectHS_P1 :: "jsnum list \<Rightarrow> real \<Rightarrow> hsOpts \<Rightarrow> error + detection" where
  "detectHS_P1 env fs opts =
     (let minGap = js_round (fs * minGapMs opts / 1000);
          offset = js_round (fs * offsetMs opts / 1000);
          med = median env;
          m = scale_P2 env;
          best = (if isFinite m \<and> jgt m (Fin (1 / 10 ^ 12))
                  then foldl (\<lambda>best k. keepBetter best (onsetCandidate_P1 env fs opts med m k))
                         None ks_onset
                  else None)
      in case best of
           Some b \<Rightarrow> Inr b
         | None \<Rightarrow>
             (let thrPeak = percentile env 80;
                  thrOff = percentile env 60;
                  peaks = pickPeaksGreedy env minGap thrPeak (expectedCount opts);
                  hs = applyOffsetAndMerge (map (\<lambda>p. int (refineToOnset env p thrOff)) peaks)
                         offset minGap (int (length env))
              in if length peaks \<ge> 2 \<and> length hs \<ge> 2
                 then Inr \<lparr>det_k = PeakFallback, det_thr = thrPeak, det_hs = events hs,
                        det_score = scoreHS_P1 (events hs) fs (plausibleStep opts)
                                      (expectedCount opts)\<rparr>
                 else Inl DetectionFailure))"

text \<open>The field \<open>mode\<close>: \<open>"MAD"\<close> for a result of the sweep, \<open>"PEAK"\<close> for the fallback.\<close>
datatype detMode = MAD | PEAK

record pipelineResult_P1 = pipelineResult +
  res_mode :: detMode
  dbg_finiteRatio :: real
  dbg_envMed :: jsnum
  dbg_envMad :: jsnum
  dbg_envP95 :: jsnum
  dbg_envMax :: jsnum

text \<open>What the hardened pipeline does once its checks have passed, on the sanitized and centred signal.\<close>
definition detectAndNormalize_P1 ::
  "jsnum list \<Rightarrow> jsnum list \<Rightarrow> real \<Rightarrow> real \<Rightarrow> pipelineParams \<Rightarrow> int option
   \<Rightarrow> error + pipelineResult_P1" where
  "detectAndNormalize_P1 t y finiteRatio fs params expected =
     (let env = envelopeOf y fs (p_hp params) (p_lp params) (p_rmsMs params)
      in case detectHS_P1 env fs
                \<lparr>expectedCount = expected, minBurstMs = p_minBurstMs params,
                   minGapMs = p_minGapMs params, offsetMs = p_offsetMs params,
                   plausibleStep = (0.35, 1.6)\<rparr> of
           Inl e \<Rightarrow> Inl e
         | Inr hsRes \<Rightarrow>
             Inr (pipelineResult.extend (cyclesOf t env hsRes (p_nPoints params))
                    \<lparr>res_mode = (case det_k hsRes of KNum _ \<Rightarrow> MAD | _ \<Rightarrow> PEAK),
                       dbg_finiteRatio = finiteRatio, dbg_envMed = median env,
                       dbg_envMad = mad env, dbg_envP95 = percentile env 95,
                       dbg_envMax = mathMax env\<rparr>))"

text \<open>
  The hardened pipeline. The validity ratio is taken of the sanitized signal, as the
  source does; the checks come in the source's order.
\<close>
definition computePipeline_P1 ::
  "jsnum list \<Rightarrow> jsnum list \<Rightarrow> real \<Rightarrow> pipelineParams \<Rightarrow> int option
   \<Rightarrow> error + pipelineResult_P1" where
  "computePipeline_P1 t x fs params expected =
     (let y = sanitizeArray x;
          finiteRatio = varRatioFinite y
      in if finiteRatio < 0.95 then Inl InsufficientData_ratio
         else
           (let m = mean_P1 y;
                y' = map (\<lambda>v. jsub v m) y
            in if real (length y') < fs * 2 then Inl InsufficientData_short
               else if p_hp params \<ge> fs / 2 then Inl ConfigurationError_hp
               else if p_lp params \<ge> fs / 2 then Inl ConfigurationError_lp
               else detectAndNormalize_P1 t y' finiteRatio fs params expected))"

section \<open>Reconciliation with external events\<close>










text \<open>What the detector promises of an event list: at least two events, ascending, each at least \<open>g\<close> after its predecessor, all inside \<open>[0, n)\<close>.\<close>
definition eventsOK :: "int \<Rightarrow> int \<Rightarrow> int list \<Rightarrow> bool" where
  "eventsOK g n hs = (2 \<le> length hs \<and> sorted hs \<and> gapsAtLeast g hs \<and> (\<forall>x\<in>set hs. 0 \<le> x \<and> x < n))"

section \<open>Example inputs\<close>

text \<open>
  Small envelopes at 10 Hz with bursts of one sample, and the options used with them:
  bursts of at least 100 ms, a minimum gap of 300 ms (three samples), no offset.
\<close>
definition env_two :: "jsnum list" where
  "env_two = [Fin 0, Fin 1, Fin 0, Fin 0, Fin 1, Fin 0, Fin 0, Fin 0]"

definition env_mad :: "jsnum list" where
  "env_mad = [Fin 0, Fin 1, Fin 0, Fin 9, Fin 0, Fin 1, Fin 0, Fin 9, Fin 0, Fin 1]"

definition env_merge :: "jsnum list" where
  "env_merge = [Fin 0, Fin 1, Fin 0, Fin 5, Fin 0, Fin 0, Fin 0, Fin 0, Fin 1, Fin 0, Fin 0, Fin 0]"

definition opts_ex :: hsOpts where
  "opts_ex = \<lparr>expectedCount = None, minBurstMs = 100, minGapMs = 300, offsetMs = 0,
              plausibleStep = (0.35, 1.6)\<rparr>"

definition opts1_ex :: hsOpts_A1 where
  "opts1_ex = \<lparr>expectedCount = None, minBurstMs = 100, minGapMs = 300, offsetMs = 0,
               plausibleStep = (0.6, 2.5), enableEveryOtherFix = True, peakBackMs = 180,
               peakForwardMs = 30\<rparr>"

text \<open>
  Pipeline parameters for a recording sampled at 1000 Hz, and the same parameters with a
  high-pass cutoff above the Nyquist frequency.
\<close>
definition params_ex :: pipelineParams where
  "params_ex = \<lparr>p_hp = 20, p_lp = 450, p_rmsMs = 50, p_minBurstMs = 100, p_minGapMs = 300,
                p_offsetMs = 0, p_nPoints = 101\<rparr>"

definition params_hp_ex :: pipelineParams where
  "params_hp_ex = \<lparr>p_hp = 600, p_lp = 450, p_rmsMs = 50, p_minBurstMs = 100, p_minGapMs = 300,
                   p_offsetMs = 0, p_nPoints = 101\<rparr>"




section \<open>Properties\<close>

lemma gaps_of_sorted_wrt:
  "sorted_wrt (\<lambda>x y. y - x \<ge> g) hs \<Longrightarrow> gapsAtLeast g hs"
  by (induction g hs rule: gapsAtLeast.induct) auto

lemma sorted_wrt_of_gaps:
  "sorted hs \<Longrightarrow> gapsAtLeast g hs \<Longrightarrow> sorted_wrt (\<lambda>x y. y - x \<ge> g) hs"
proof (induction g hs rule: gapsAtLeast.induct)
  case (3 g x y ys)
  then have a: "sorted_wrt (\<lambda>x y. y - x \<ge> g) (y # ys)" by simp
  have "\<forall>z\<in>set (y # ys). z - x \<ge> g"
    using 3 by auto
  then show ?case using a by simp
qed auto

lemma sorted_le_last: "sorted (xs :: int list) \<Longrightarrow> xs \<noteq> [] \<Longrightarrow> x \<in> set xs \<Longrightarrow> x \<le> last xs"
  by (induction xs) auto

lemma mergeLoop_inv:
  "merged \<noteq> [] \<Longrightarrow> sorted (merged @ hs) \<Longrightarrow> sorted_wrt (\<lambda>x y. y - x \<ge> g) merged
   \<Longrightarrow> sorted (mergeLoop merged hs g) \<and> sorted_wrt (\<lambda>x y. y - x \<ge> g) (mergeLoop merged hs g)"
proof (induction hs arbitrary: merged)
  case Nil
  then show ?case by simp
next
  case (Cons h hs)
  show ?case
  proof (cases "h - last merged \<ge> g")
    case True
    have "sorted merged" using Cons.prems(2) by (simp add: sorted_append)
    then have le: "\<forall>x\<in>set merged. x \<le> last merged"
      using Cons.prems(1) sorted_le_last by blast
    then have "\<forall>x\<in>set merged. h - x \<ge> g" using True by force
    then have "sorted_wrt (\<lambda>x y. y - x \<ge> g) (merged @ [h])"
      using Cons.prems(3) by (simp add: sorted_wrt_append)
    moreover have "sorted ((merged @ [h]) @ hs)" using Cons.prems(2) by simp
    ultimately show ?thesis using Cons.IH [of "merged @ [h]"] True by simp
  next
    case False
    have "sorted (merged @ hs)" using Cons.prems(2) by (auto simp: sorted_append)
    then show ?thesis using Cons.IH [of merged] Cons.prems False by simp
  qed
qed

lemma mergeLoop_set: "set (mergeLoop merged hs g) \<subseteq> set merged \<union> set hs"
proof (induction hs arbitrary: merged)
  case (Cons h hs)
  show ?case using Cons [of merged] Cons [of "merged @ [h]"] by auto
qed simp

lemma mergeLoop_subseq: "subseq (mergeLoop merged hs g) (merged @ hs)"
proof (induction hs arbitrary: merged)
  case (Cons h hs)
  have "subseq hs (h # hs)" by (rule list_emb_Cons) simp
  then have "subseq (merged @ hs) (merged @ h # hs)" by (simp add: subseq_append')
  then show ?case using Cons [of merged] Cons [of "merged @ [h]"] 
    by (auto intro: subseq_order.trans)
qed simp

lemma mergeLoop_nonempty: "merged \<noteq> [] \<Longrightarrow> mergeLoop merged hs g \<noteq> []"
  by (induction hs arbitrary: merged) auto

lemma applyOffsetAndMerge_props:
  assumes "length (applyOffsetAndMerge raw off g n) \<ge> 2"
  shows "\<exists>xs. applyOffsetAndMerge raw off g n = map Some xs \<and> sorted xs \<and> gapsAtLeast g xs
            \<and> (\<forall>x\<in>set xs. 0 \<le> x \<and> x < n \<and> x - off \<in> set raw)"
proof -
  let ?s = "sort (filter (\<lambda>v. v \<ge> 0 \<and> v < n) (map (\<lambda>v. v + off) raw))"
  from assms have ne: "raw \<noteq> []" by (auto simp: applyOffsetAndMerge_def)
  from assms ne obtain h0 rest where s: "?s = h0 # rest"
    by (cases ?s) (auto simp: applyOffsetAndMerge_def)
  let ?m = "mergeLoop [h0] rest g"
  have r: "applyOffsetAndMerge raw off g n = map Some ?m"
    using ne s by (simp add: applyOffsetAndMerge_def)
  have "sorted ([h0] @ rest)" using s by (metis append_Cons append_Nil sorted_sort)
  then have inv: "sorted ?m \<and> sorted_wrt (\<lambda>x y. y - x \<ge> g) ?m"
    by (intro mergeLoop_inv) auto
  have "set ?m \<subseteq> set ?s" using mergeLoop_set [of "[h0]" rest g] s by auto
  then have "\<forall>x\<in>set ?m. 0 \<le> x \<and> x < n \<and> x - off \<in> set raw" by auto
  then show ?thesis using r inv gaps_of_sorted_wrt by blast
qed

lemma events_map_Some [simp]: "events (map Some xs) = xs"
  by (simp add: events_def comp_def)

lemma applyOffsetAndMerge_eventsOK:
  "length (applyOffsetAndMerge raw off g n) \<ge> 2 \<Longrightarrow> eventsOK g n (events (applyOffsetAndMerge raw off g n))"
  using applyOffsetAndMerge_props [of raw off g n] 
  by (auto simp: eventsOK_def)

lemma foldl_keepBetter_inv:
  "\<forall>k\<in>set ks. \<forall>c. cand k = Some c \<longrightarrow> P c \<Longrightarrow> \<forall>b. best0 = Some b \<longrightarrow> P b
   \<Longrightarrow> foldl (\<lambda>best k. keepBetter best (cand k)) best0 ks = Some r \<Longrightarrow> P r"
proof (induction ks arbitrary: best0)
  case Nil
  then show ?case by simp
next
  case (Cons k ks)
  have "\<forall>b. keepBetter best0 (cand k) = Some b \<longrightarrow> P b"
    using Cons.prems(1,2)
    by (auto simp: keepBetter_def split: option.splits if_splits)
  then show ?case using Cons.IH [of "keepBetter best0 (cand k)"] Cons.prems(1,3) by simp
qed

lemma onsetCandidate_P2_props:
  assumes "onsetCandidate_P2 env fs opts med m k = Some c"
  shows "eventsOK (js_round (fs * minGapMs opts / 1000)) (int (length env)) (det_hs c)"
    and "det_thr c = jadd med (jmul (Fin k) m)" and "det_k c = KNum k"
  using assms applyOffsetAndMerge_eventsOK
  by (auto simp: onsetCandidate_P2_def Let_def split: if_splits)

lemma detectHS_P2_eventsOK:
  assumes "detectHS_P2 env fs opts = Inr r"
  shows "eventsOK (js_round (fs * minGapMs opts / 1000)) (int (length env)) (det_hs r)"
proof -
  let ?g = "js_round (fs * minGapMs opts / 1000)"
  let ?P = "\<lambda>c. eventsOK ?g (int (length env)) (det_hs c)"
  let ?best = "foldl (\<lambda>best k. keepBetter best (onsetCandidate_P2 env fs opts (median env) (scale_P2 env) k)) None ks_onset"
  have sweep: "?P b" if "?best = Some b" for b
    using foldl_keepBetter_inv [where P = ?P and ?best0.0 = None and ks = ks_onset
          and cand = "onsetCandidate_P2 env fs opts (median env) (scale_P2 env)" and r = b]
      onsetCandidate_P2_props(1) that by blast
  show ?thesis
    using assms sweep applyOffsetAndMerge_eventsOK
    by (auto simp: detectHS_P2_def Let_def split: option.splits if_splits)
qed

lemma detectHS_P2_error: "detectHS_P2 env fs opts = Inl e \<Longrightarrow> e = DetectionFailure"
  by (auto simp: detectHS_P2_def Let_def split: option.splits if_splits)

lemma localMaxima_replicate: "localMaxima (replicate n c) = []"
proof -
  have "\<not> jgt c c" by (cases c) auto
  then show ?thesis by (auto simp: localMaxima_def filter_empty_conv)
qed

lemma pickPeaksGreedy_replicate: "pickPeaksGreedy (replicate n c) d thr mc = []"
  by (simp add: pickPeaksGreedy_def localMaxima_replicate sortByAmpDesc_def)

lemma finites_replicate_Fin: "finites (replicate n (Fin a)) = replicate n a"
  by (induction n) auto

lemma finites_replicate_nonfinite: "\<not> isFinite c \<Longrightarrow> finites (replicate n c) = []"
  by (induction n) (cases c; auto)+

lemma sort_replicate: "sort (replicate n (a::real)) = replicate n a"
  by (simp add: sorted_sort_id sorted_replicate)

lemma median_replicate_Fin: "median (replicate n (Fin a)) = (if n = 0 then NaN else Fin a)"
proof (cases "n = 0")
  case True
  then show ?thesis by (simp add: median_def)
next
  case False
  then have "n div 2 < n" "n mod 2 = 0 \<Longrightarrow> n div 2 - 1 < n" by auto
  then show ?thesis using False
    by (auto simp: median_def finites_replicate_Fin sort_replicate Let_def)
qed

lemma median_nonfinite: "\<not> isFinite c \<Longrightarrow> median (replicate n c) = NaN"
  by (simp add: median_def finites_replicate_nonfinite)

lemma dev_nonfinite: "\<not> isFinite c \<Longrightarrow> \<not> isFinite (jabs (jsub c med))"
  by (cases c; cases med) (auto simp: jsub_def)

lemma median_Nil: "median [] = NaN"
  by (simp add: median_def)

lemma mad_replicate: "mad (replicate n c) = (if n = 0 \<or> \<not> isFinite c then NaN else Fin 0)"
proof (cases c)
  case (Fin a)
  then show ?thesis
    by (cases "n = 0") (simp_all add: mad_def median_replicate_Fin jsub_def Let_def median_Nil)
next
  case PInf
  then show ?thesis using median_nonfinite [of "jabs (jsub c (median (replicate n c)))" n] dev_nonfinite [of c]
    by (simp add: mad_def Let_def)
next
  case NInf
  then show ?thesis using median_nonfinite [of "jabs (jsub c (median (replicate n c)))" n] dev_nonfinite [of c]
    by (simp add: mad_def Let_def)
next
  case NaN
  then show ?thesis using median_nonfinite [of "jabs (jsub c (median (replicate n c)))" n] dev_nonfinite [of c]
    by (simp add: mad_def Let_def)
qed

lemma percentile_cases:
  "percentile arr p = NaN \<or>
   (\<exists>x\<in>set (finites arr). \<exists>y\<in>set (finites arr). \<exists>w. percentile arr p = Fin (x * (1 - w) + y * w))"
proof -
  define a where "a = sort (finites arr)"
  define pos where "pos = (p / 100) * (real (length a) - 1)"
  define i0 where "i0 = \<lfloor>pos\<rfloor>"
  define i1 where "i1 = min (int (length a) - 1) (i0 + 1)"
  have eq: "percentile arr p =
      (if length a = 0 then NaN
       else if 0 \<le> i0 \<and> i0 < int (length a) \<and> 0 \<le> i1
            then Fin (a ! nat i0 * (1 - (pos - real_of_int i0)) + a ! nat i1 * (pos - real_of_int i0))
            else NaN)"
    unfolding percentile_def Let_def a_def pos_def i0_def i1_def by (rule refl)
  show ?thesis
  proof (cases "length a \<noteq> 0 \<and> 0 \<le> i0 \<and> i0 < int (length a) \<and> 0 \<le> i1")
    case True
    then have "nat i0 < length a" "nat i1 < length a" by (auto simp: i1_def)
    then have "a ! nat i0 \<in> set a" "a ! nat i1 \<in> set a" by simp_all
    then have "a ! nat i0 \<in> set (finites arr)" "a ! nat i1 \<in> set (finites arr)"
      by (simp_all add: a_def)
    moreover have "percentile arr p =
        Fin (a ! nat i0 * (1 - (pos - real_of_int i0)) + a ! nat i1 * (pos - real_of_int i0))"
      using True eq by simp
    ultimately show ?thesis by blast
  next
    case False
    then have "percentile arr p = NaN" using eq by auto
    then show ?thesis by simp
  qed
qed

lemma percentile_replicate:
  "percentile (replicate n c) p = NaN \<or> (\<exists>a. c = Fin a \<and> percentile (replicate n c) p = Fin a)"
proof (cases c)
  case (Fin a)
  have "a * (1 - w) + a * w = a" for w :: real by (simp add: algebra_simps)
  then show ?thesis using Fin percentile_cases [of "replicate n c" p]
    by (auto simp: finites_replicate_Fin)
qed (simp_all add: percentile_def finites_replicate_nonfinite)

lemma scale_P2_replicate:
  "scale_P2 (replicate n c) = NaN \<or> scale_P2 (replicate n c) = Fin 0"
  using percentile_replicate [of n c 75] percentile_replicate [of n c 25]
  by (auto simp: scale_P2_def mad_replicate jsub_def jlt_def Let_def)

lemma detectHS_P2_constant: "detectHS_P2 (replicate n c) fs opts = Inl DetectionFailure"
  using scale_P2_replicate [of n c]
  by (auto simp: detectHS_P2_def pickPeaksGreedy_replicate applyOffsetAndMerge_def Let_def)

lemma subseq_set: "subseq xs ys \<Longrightarrow> set xs \<subseteq> set ys"
  by (induction rule: list_emb.induct) auto

lemma sorted_wrt_subseq: "subseq xs ys \<Longrightarrow> sorted_wrt R ys \<Longrightarrow> sorted_wrt R xs"
proof (induction rule: list_emb.induct)
  case (list_emb_Cons2 x y xs ys)
  then show ?case using subseq_set [of xs ys] by auto
qed auto

lemma eventsOK_subseq:
  "sorted ys \<Longrightarrow> gapsAtLeast g ys \<Longrightarrow> subseq xs ys \<Longrightarrow> sorted xs \<and> gapsAtLeast g xs"
  using sorted_wrt_subseq [of xs ys] sorted_wrt_of_gaps [of ys g] gaps_of_sorted_wrt [of g xs]
  by blast

lemma everyNth_nths: "everyNth m off hs = nths hs {i. i mod m = off}"
proof -
  have "map snd (filter (\<lambda>(i, x). P i) (zip is xs)) = map fst (filter (\<lambda>p. P (snd p)) (zip xs is))"
    for P :: "nat \<Rightarrow> bool" and "is" and xs :: "'a list"
    by (induction "is" xs rule: list_induct2') auto
  then show ?thesis
    by (simp add: everyNth_def nths_def enumerate_eq_zip)
qed

lemma everyNth_subseq: "subseq (everyNth m off hs) hs"
  by (metis everyNth_nths subseq_conv_nths)

lemma mergeByMinGapLoop_inv:
  "out \<noteq> [] \<Longrightarrow> sorted (map fst (out @ rest)) \<Longrightarrow> sorted_wrt (\<lambda>x y. y - x \<ge> g) (map fst out)
   \<Longrightarrow> sorted (map fst (mergeByMinGapLoop g out rest))
       \<and> sorted_wrt (\<lambda>x y. y - x \<ge> g) (map fst (mergeByMinGapLoop g out rest))
       \<and> set (mergeByMinGapLoop g out rest) \<subseteq> set out \<union> set rest"
proof (induction rest arbitrary: out)
  case Nil
  then show ?case by simp
next
  case (Cons e rest)
  obtain h s where e: "e = (h, s)" by (cases e)
  obtain bs l where out: "out = bs @ [l]" using Cons.prems(1) by (metis append_butlast_last_id)
  have srt: "sorted (map fst bs @ fst l # h # map fst rest)"
    using Cons.prems(2) by (simp add: out e)
  have gaps: "sorted_wrt (\<lambda>x y. y - x \<ge> g) (map fst bs)" "\<forall>x\<in>set bs. fst l - fst x \<ge> g"
    using Cons.prems(3) by (auto simp: out sorted_wrt_append)
  have lh: "fst l \<le> h" using srt by (simp add: sorted_append)
  consider (replace) "h - fst l < g" "jgt s (snd l)" | (drop) "h - fst l < g" "\<not> jgt s (snd l)"
    | (push) "\<not> h - fst l < g" by blast
  then show ?case
  proof cases
    case replace
    have 1: "sorted (map fst ((bs @ [(h, s)]) @ rest))"
      using srt by (auto simp: sorted_append)
    have 2: "sorted_wrt (\<lambda>x y. y - x \<ge> g) (map fst (bs @ [(h, s)]))"
      using gaps lh by (fastforce simp: sorted_wrt_append)
    show ?thesis
      using Cons.IH [of "bs @ [(h, s)]", OF _ 1 2] replace by (auto simp: out e)
  next
    case drop
    have 1: "sorted (map fst (out @ rest))"
      using srt by (auto simp: sorted_append out)
    show ?thesis
      using Cons.IH [of out, OF Cons.prems(1) 1 Cons.prems(3)] drop by (auto simp: out e)
  next
    case push
    have 1: "sorted (map fst ((out @ [(h, s)]) @ rest))"
      using srt by (simp add: out)
    have "\<forall>x\<in>set out. fst x \<le> fst l" using srt by (auto simp: out sorted_append)
    then have 2: "sorted_wrt (\<lambda>x y. y - x \<ge> g) (map fst (out @ [(h, s)]))"
      using Cons.prems(3) push by (fastforce simp: sorted_wrt_append)
    show ?thesis
      using Cons.IH [of "out @ [(h, s)]", OF _ 1 2] push by (auto simp: out e)
  qed
qed

lemma mergeByMinGap_inv:
  assumes "sorted (map fst evs)"
  shows "sorted (map fst (mergeByMinGap g evs))
       \<and> gapsAtLeast g (map fst (mergeByMinGap g evs))
       \<and> set (mergeByMinGap g evs) \<subseteq> set evs"
proof (cases evs)
  case Nil
  then show ?thesis by (simp add: mergeByMinGap_def)
next
  case (Cons e rest)
  have "sorted (map fst (mergeByMinGapLoop g [e] rest))
     \<and> sorted_wrt (\<lambda>x y. y - x \<ge> g) (map fst (mergeByMinGapLoop g [e] rest))
     \<and> set (mergeByMinGapLoop g [e] rest) \<subseteq> set [e] \<union> set rest"
    using assms Cons by (intro mergeByMinGapLoop_inv) auto
  then show ?thesis using Cons gaps_of_sorted_wrt by (simp add: mergeByMinGap_def)
qed

lemma chooseEveryOtherIfDouble_A1_subseq: "subseq (chooseEveryOtherIfDouble_A1 fs opts hs) hs"
  by (simp add: chooseEveryOtherIfDouble_A1_def Let_def everyNth_subseq)

lemma peakCandidate_A1_props:
  assumes "peakCandidate_A1 env fs opts med md k = Some c"
  shows "eventsOK (max 1 (js_round ((minGapMs opts / 1000) * fs))) (int (length env)) (det_hs c)"
    and "det_thr c = jadd med (jmul (Fin k) (jmul md (Fin 1.4826)))" and "det_k c = KNum k"
proof -
  define g where "g = max 1 (js_round ((minGapMs opts / 1000) * fs))"
  define bk where "bk = js_round ((peakBackMs opts / 1000) * fs)"
  define fwd where "fwd = js_round ((peakForwardMs opts / 1000) * fs)"
  define offset where "offset = js_round ((offsetMs opts / 1000) * fs)"
  define thr where "thr = jadd med (jmul (Fin k) (jmul md (Fin 1.4826)))"
  define segs where "segs = filter (\<lambda>(s, e). e - s + 1 \<ge> max 1 (js_round ((minBurstMs opts / 1000) * fs)))
                   (map (\<lambda>(s, e). (s, max s e))
                      (map (\<lambda>(s, e). (int s, int e - 1)) (risingEdges (map (\<lambda>v. jgt v thr) env))))"
  define evs where "evs = filter (\<lambda>(h, pv). h \<ge> 0 \<and> h < int (length env))
                        (map (\<lambda>(s, e).
                            (let (p, pv) = burstPeak env s e
                             in (hsAroundPeak env bk fwd s e p + offset, pv))) segs)"
  define merged where "merged = mergeByMinGap g (sort_key fst evs)"
  define hsFinal where "hsFinal = chooseEveryOtherIfDouble_A1 fs opts (map fst merged)"
  have c: "segs \<noteq> [] \<and> \<not> length hsFinal < 2 \<and> c = \<lparr>det_k = KNum k, det_thr = thr, det_hs = hsFinal,
                      det_score = scoreHS 1.0 hsFinal fs (plausibleStep opts) (expectedCount opts)\<rparr>"
    using assms
    unfolding peakCandidate_A1_def Let_def g_def bk_def fwd_def offset_def thr_def segs_def
      evs_def merged_def hsFinal_def
    by (auto split: if_splits)
  have m: "sorted (map fst merged) \<and> gapsAtLeast g (map fst merged) \<and> set merged \<subseteq> set (sort_key fst evs)"
    unfolding merged_def by (rule mergeByMinGap_inv) simp
  have sub: "subseq hsFinal (map fst merged)"
    unfolding hsFinal_def by (rule chooseEveryOtherIfDouble_A1_subseq)
  have "\<forall>x\<in>set evs. 0 \<le> fst x \<and> fst x < int (length env)"
    by (auto simp: evs_def)
  then have "\<forall>x\<in>set (map fst merged). 0 \<le> x \<and> x < int (length env)"
    using m by auto
  then have rng: "\<forall>x\<in>set hsFinal. 0 \<le> x \<and> x < int (length env)"
    using subseq_set [OF sub] by blast
  have "sorted hsFinal \<and> gapsAtLeast g hsFinal"
    using eventsOK_subseq [OF _ _ sub] m by blast
  then show "eventsOK (max 1 (js_round ((minGapMs opts / 1000) * fs))) (int (length env)) (det_hs c)"
    using c rng by (simp add: eventsOK_def g_def)
  show "det_thr c = jadd med (jmul (Fin k) (jmul md (Fin 1.4826)))" using c by (simp add: thr_def)
  show "det_k c = KNum k" using c by simp
qed

lemma detectHS_A1_eventsOK:
  assumes "detectHS_A1 env fs opts = Inr r"
  shows "eventsOK (max 1 (js_round ((minGapMs opts / 1000) * fs))) (int (length env)) (det_hs r)"
proof -
  let ?P = "\<lambda>c. eventsOK (max 1 (js_round ((minGapMs opts / 1000) * fs))) (int (length env)) (det_hs c)"
  let ?best = "foldl (\<lambda>best k. keepBetter best (peakCandidate_A1 env fs opts (median env) (scale_A1 env) k)) None ks_peak"
  have sweep: "?P b" if "?best = Some b" for b
    using foldl_keepBetter_inv [where P = ?P and ?best0.0 = None and ks = ks_peak
          and cand = "peakCandidate_A1 env fs opts (median env) (scale_A1 env)" and r = b]
      peakCandidate_A1_props(1) that by blast
  show ?thesis
    using assms sweep
    by (auto simp: detectHS_A1_def Let_def split: option.splits if_splits)
qed

lemma detectHS_A1_error: "detectHS_A1 env fs opts = Inl e \<Longrightarrow> e = DetectionFailure"
  by (auto simp: detectHS_A1_def Let_def split: option.splits if_splits)

lemma onsetCandidate_A3_props:
  assumes "onsetCandidate_A3 env fs opts med m k = Some c"
  shows "eventsOK (js_round (fs * minGapMs opts / 1000)) (int (length env)) (det_hs c)"
    and "det_thr c = jadd med (jmul (Fin k) m)" and "det_k c = KNum k"
proof -
  define g where "g = js_round (fs * minGapMs opts / 1000)"
  define offset where "offset = js_round (fs * offsetMs opts / 1000)"
  define thr where "thr = jadd med (jmul (Fin k) m)"
  define starts where "starts = sort (map (\<lambda>(s, e). int s)
      (filter (\<lambda>(s, e). int e - int s \<ge> js_round (fs * minBurstMs opts / 1000))
         (risingEdges (map (\<lambda>v. jgt v thr) env))))"
  from assms obtain h0 rest where st: "starts = h0 # rest"
    unfolding onsetCandidate_A3_def Let_def starts_def thr_def
    by (auto split: list.splits)
  define merged where "merged = mergeLoop [h0] rest g"
  define hs where "hs = filter (\<lambda>v. v \<ge> 0 \<and> v < int (length env)) (map (\<lambda>v. v + offset) merged)"
  have c: "\<not> length hs < 2 \<and> c = \<lparr>det_k = KNum k, det_thr = thr, det_hs = hs,
                        det_score = scoreHS 0.7 hs fs (plausibleStep opts) (expectedCount opts)\<rparr>"
    using assms st
    unfolding onsetCandidate_A3_def Let_def starts_def thr_def g_def offset_def merged_def hs_def
    by (auto split: if_splits)
  have "sorted ([h0] @ rest)" using st unfolding starts_def by (metis append_Cons append_Nil sorted_sort)
  then have inv: "sorted merged \<and> sorted_wrt (\<lambda>x y. y - x \<ge> g) merged"
    unfolding merged_def by (intro mergeLoop_inv) auto
  have "sorted (map (\<lambda>v. v + offset) merged)"
    using inv by (simp add: sorted_map sorted_wrt_map)
  then have 1: "sorted hs" unfolding hs_def by (rule sorted_filter [where f = id, simplified])
  have "sorted_wrt (\<lambda>x y. y - x \<ge> g) (map (\<lambda>v. v + offset) merged)"
    using inv by (simp add: sorted_wrt_map)
  then have "sorted_wrt (\<lambda>x y. y - x \<ge> g) hs" unfolding hs_def by (rule sorted_wrt_filter)
  then have 2: "gapsAtLeast g hs" by (rule gaps_of_sorted_wrt)
  have 3: "\<forall>x\<in>set hs. 0 \<le> x \<and> x < int (length env)" by (auto simp: hs_def)
  show "eventsOK (js_round (fs * minGapMs opts / 1000)) (int (length env)) (det_hs c)"
    using c 1 2 3 by (simp add: eventsOK_def g_def)
  show "det_thr c = jadd med (jmul (Fin k) m)" using c by (simp add: thr_def)
  show "det_k c = KNum k" using c by simp
qed

lemma detectHS_A3_eventsOK:
  assumes "detectHS_A3 env fs opts = Inr r"
  shows "eventsOK (js_round (fs * minGapMs opts / 1000)) (int (length env)) (det_hs r)"
proof -
  let ?P = "\<lambda>c. eventsOK (js_round (fs * minGapMs opts / 1000)) (int (length env)) (det_hs c)"
  let ?best = "foldl (\<lambda>best k. keepBetter best (onsetCandidate_A3 env fs opts (median env) (mad env) k)) None ks_onset"
  have sweep: "?P b" if "?best = Some b" for b
    using foldl_keepBetter_inv [where P = ?P and ?best0.0 = None and ks = ks_onset
          and cand = "onsetCandidate_A3 env fs opts (median env) (mad env)" and r = b]
      onsetCandidate_A3_props(1) that by blast
  show ?thesis
    using assms sweep
    by (auto simp: detectHS_A3_def Let_def split: option.splits if_splits)
qed


lemma foldl_keepBetter_None:
  "\<forall>k\<in>set ks. cand k = None \<Longrightarrow> foldl (\<lambda>best k. keepBetter best (cand k)) None ks = None"
  by (induction ks) (auto simp: keepBetter_def)

lemma risingEdges_all_False: "risingEdges (replicate n False) = []"
  by (auto simp: risingEdges_def Let_def filter_empty_conv)

lemma madScalar_replicate: "madScalar (replicate n c) = (if n = 0 \<or> \<not> isFinite c then NaN else Fin 0)"
  using mad_replicate [of n c] median_replicate_Fin [of n] median_nonfinite [of c n]
  by (cases c) (auto simp: madScalar_def mad_def Let_def)

lemma scale_A1_replicate:
  "scale_A1 (replicate n c) = Fin 0 \<or> scale_A1 (replicate n c) = Fin (1 / 10 ^ 6)"
proof (cases c)
  case (Fin a)
  have "sort (finites (replicate n c)) ! i = a" if "i < n" for i
    using that Fin by (simp add: finites_replicate_Fin sort_replicate)
  moreover have "nat \<lfloor>real n * 0.75\<rfloor> < n" "nat \<lfloor>real n * 0.25\<rfloor> < n" if "n \<ge> 10"
  proof -
    have "\<lfloor>real n * 0.75\<rfloor> < int n" "\<lfloor>real n * 0.25\<rfloor> < int n"
      using that by (simp_all add: floor_less_iff)
    then show "nat \<lfloor>real n * 0.75\<rfloor> < n" "nat \<lfloor>real n * 0.25\<rfloor> < n"
      using that by linarith+
  qed
  ultimately show ?thesis using Fin
    by (auto simp: scale_A1_def madScalar_replicate jlt_def Let_def finites_replicate_Fin)
qed (auto simp: scale_A1_def madScalar_replicate finites_replicate_nonfinite Let_def)

lemma constant_below_threshold:
  assumes "x = NaN \<or> (\<exists>b\<ge>0. x = Fin b)"
  shows "\<not> jgt c (jadd (median (replicate n c)) x)"
proof (cases c)
  case (Fin a)
  then show ?thesis using assms by (cases "n = 0") (auto simp: median_replicate_Fin median_Nil)
next
  case PInf
  then show ?thesis using median_nonfinite [of c n] by simp
next
  case NInf
  then show ?thesis using median_nonfinite [of c n] by simp
next
  case NaN
  then show ?thesis by simp
qed

lemma peakCandidate_A1_constant:
  assumes "k \<ge> 0"
  shows "peakCandidate_A1 (replicate n c) fs opts (median (replicate n c)) (scale_A1 (replicate n c)) k = None"
proof -
  have "\<exists>b\<ge>0. scale_A1 (replicate n c) = Fin b"
  proof (cases "scale_A1 (replicate n c) = Fin 0")
    case True
    then show ?thesis by (intro exI [of _ 0]) simp
  next
    case False
    then have "scale_A1 (replicate n c) = Fin (1 / 10 ^ 6)" using scale_A1_replicate [of n c] by blast
    then show ?thesis by (intro exI [of _ "1 / 10 ^ 6"]) simp
  qed
  then obtain b where b: "b \<ge> 0" "scale_A1 (replicate n c) = Fin b" by blast
  have "jmul (Fin k) (jmul (Fin b) (Fin 1.4826)) = Fin (k * (b * 1.4826))" "k * (b * 1.4826) \<ge> 0"
    using assms b by simp_all
  then have "\<not> jgt c (jadd (median (replicate n c)) (jmul (Fin k) (jmul (Fin b) (Fin 1.4826))))"
    by (intro constant_below_threshold) blast
  then have eq: "map (\<lambda>v. jgt v (jadd (median (replicate n c)) (jmul (Fin k) (jmul (Fin b) (Fin 1.4826)))))
      (replicate n c) = replicate n False" by simp
  show ?thesis
    unfolding peakCandidate_A1_def Let_def b eq risingEdges_all_False by simp
qed

lemma ks_peak_nonneg: "k \<in> set ks_peak \<Longrightarrow> k \<ge> 0"
  by (auto simp: ks_peak_def)

lemma ks_onset_nonneg: "k \<in> set ks_onset \<Longrightarrow> k \<ge> 0"
  by (auto simp: ks_onset_def)

lemma detectHS_A1_constant: "detectHS_A1 (replicate n c) fs opts = Inl DetectionFailure"
  using foldl_keepBetter_None [of ks_peak
      "peakCandidate_A1 (replicate n c) fs opts (median (replicate n c)) (scale_A1 (replicate n c))"]
    peakCandidate_A1_constant ks_peak_nonneg
  by (simp add: detectHS_A1_def Let_def)

lemma onsetCandidate_A3_constant:
  assumes "k \<ge> 0"
  shows "onsetCandidate_A3 (replicate n c) fs opts (median (replicate n c)) (mad (replicate n c)) k = None"
proof -
  have "jmul (Fin k) (mad (replicate n c)) = NaN \<or> (\<exists>b\<ge>0. jmul (Fin k) (mad (replicate n c)) = Fin b)"
    by (simp add: mad_replicate)
  then have "\<not> jgt c (jadd (median (replicate n c)) (jmul (Fin k) (mad (replicate n c))))"
    by (rule constant_below_threshold)
  then have eq: "map (\<lambda>v. jgt v (jadd (median (replicate n c)) (jmul (Fin k) (mad (replicate n c)))))
      (replicate n c) = replicate n False" by simp
  show ?thesis
    unfolding onsetCandidate_A3_def Let_def eq risingEdges_all_False by simp
qed

lemma detectHS_A3_constant: "detectHS_A3 (replicate n c) fs opts = Inl DetectionFailure"
  using foldl_keepBetter_None [of ks_onset
      "onsetCandidate_A3 (replicate n c) fs opts (median (replicate n c)) (mad (replicate n c))"]
    onsetCandidate_A3_constant ks_onset_nonneg
  by (simp add: detectHS_A3_def Let_def)

lemma detectHS_A3_error: "detectHS_A3 env fs opts = Inl e \<Longrightarrow> e = DetectionFailure"
  by (auto simp: detectHS_A3_def Let_def split: option.splits if_splits)


lemma jge_trans: "jge a b \<Longrightarrow> jge b c \<Longrightarrow> jge a c"
  by (cases a; cases b; cases c) auto

lemma not_jgt_mono: "\<not> jgt x b \<Longrightarrow> jge a b \<Longrightarrow> \<not> jgt x a"
  by (cases a; cases b; cases x) auto

lemma jge_refl: "a \<noteq> NaN \<Longrightarrow> jge a a"
  by (cases a) auto

lemma jgt_imp_jge: "jgt a b \<Longrightarrow> jge a b"
  by (cases a; cases b) auto

lemma runmax_bounds:
  "mx \<noteq> NaN \<Longrightarrow>
   foldl (\<lambda>mx i. if jgt (f i) mx then f i else mx) mx xs \<noteq> NaN
   \<and> jge (foldl (\<lambda>mx i. if jgt (f i) mx then f i else mx) mx xs) mx
   \<and> (\<forall>i\<in>set xs. \<not> jgt (f i) (foldl (\<lambda>mx i. if jgt (f i) mx then f i else mx) mx xs))"
proof (induction xs arbitrary: mx)
  case Nil
  then show ?case by (simp add: jge_refl)
next
  case (Cons x xs)
  let ?F = "foldl (\<lambda>mx i. if jgt (f i) mx then f i else mx)"
  let ?m = "if jgt (f x) mx then f x else mx"
  have m: "?m \<noteq> NaN" using Cons.prems by (cases "f x") auto
  have ge: "jge ?m mx" using Cons.prems by (auto simp: jge_refl jgt_imp_jge)
  have x: "\<not> jgt (f x) ?m" by (cases "f x"; cases mx) auto
  from Cons.IH [OF m] have ih: "?F ?m xs \<noteq> NaN" "jge (?F ?m xs) ?m"
    "\<forall>i\<in>set xs. \<not> jgt (f i) (?F ?m xs)" by auto
  have "jge (?F ?m xs) mx" using ih(2) ge by (rule jge_trans)
  moreover have "\<not> jgt (f x) (?F ?m xs)" using x ih(2) by (rule not_jgt_mono)
  ultimately show ?case using ih by simp
qed

lemma runmax_attained:
  "foldl (\<lambda>mx i. if jgt (f i) mx then f i else mx) mx xs = mx
   \<or> (\<exists>i\<in>set xs. foldl (\<lambda>mx i. if jgt (f i) mx then f i else mx) mx xs = f i)"
proof (induction xs arbitrary: mx)
  case Nil
  then show ?case by simp
next
  case (Cons x xs)
  show ?case using Cons [of "if jgt (f x) mx then f x else mx"] by auto
qed

lemma arrayGet_Fin_in_range: "arrayGet xs i = Fin r \<Longrightarrow> 0 \<le> i \<and> i < int (length xs)"
  by (auto simp: arrayGet_def split: if_splits)

lemma arrayGet_map: "0 \<le> i \<Longrightarrow> i < int (length xs) \<Longrightarrow> arrayGet (map f xs) i = f (arrayGet xs i)"
  by (simp add: arrayGet_def)

lemma percentPeak_scaled:
  "peakReference env hs = Fin r \<Longrightarrow> r > 0
   \<Longrightarrow> percentPeak env hs = map (\<lambda>v. jmul (jdiv v (Fin r)) (Fin 100)) env"
  by (simp add: percentPeak_def jle_def)

lemma percentPeak_bound:
  assumes "length hs \<ge> 2" and ref: "peakReference env hs = Fin r" and "r > 0"
  shows "\<forall>i. hd hs \<le> i \<and> i < last hs \<and> 0 \<le> i \<and> i < int (length env)
            \<longrightarrow> \<not> jgt (arrayGet (percentPeak env hs) i) (Fin 100)"
    and "\<exists>i. hd hs \<le> i \<and> i < last hs \<and> 0 \<le> i \<and> i < int (length env)
            \<and> arrayGet (percentPeak env hs) i = Fin 100"
proof -
  let ?F = "foldl (\<lambda>mx i. if jgt (arrayGet env i) mx then arrayGet env i else mx) NInf [hd hs..last hs - 1]"
  have F: "?F = Fin r" using assms(1) ref by (simp add: peakReference_def)
  have pp: "percentPeak env hs = map (\<lambda>v. jmul (jdiv v (Fin r)) (Fin 100)) env"
    using ref assms(3) by (rule percentPeak_scaled)
  have le: "\<forall>i\<in>set [hd hs..last hs - 1]. \<not> jgt (arrayGet env i) (Fin r)"
    using runmax_bounds [of NInf "arrayGet env" "[hd hs..last hs - 1]"] F by simp
  show "\<forall>i. hd hs \<le> i \<and> i < last hs \<and> 0 \<le> i \<and> i < int (length env)
            \<longrightarrow> \<not> jgt (arrayGet (percentPeak env hs) i) (Fin 100)"
  proof (intro allI impI)
    fix i assume i: "hd hs \<le> i \<and> i < last hs \<and> 0 \<le> i \<and> i < int (length env)"
    then have "\<not> jgt (arrayGet env i) (Fin r)" using le by simp
    moreover have "arrayGet (percentPeak env hs) i = jmul (jdiv (arrayGet env i) (Fin r)) (Fin 100)"
      using i by (simp add: pp arrayGet_map)
    ultimately show "\<not> jgt (arrayGet (percentPeak env hs) i) (Fin 100)"
      using assms(3) by (cases "arrayGet env i") (auto simp: infOfSign_def field_simps)
  qed
  from runmax_attained [of "arrayGet env" NInf "[hd hs..last hs - 1]"] F
  obtain i where i: "i \<in> set [hd hs..last hs - 1]" "arrayGet env i = Fin r" by auto
  then have rng: "0 \<le> i \<and> i < int (length env)" using arrayGet_Fin_in_range by blast
  then have "arrayGet (percentPeak env hs) i = jmul (jdiv (arrayGet env i) (Fin r)) (Fin 100)"
    by (simp add: pp arrayGet_map)
  then have "arrayGet (percentPeak env hs) i = Fin 100" using i(2) assms(3) by simp
  then show "\<exists>i. hd hs \<le> i \<and> i < last hs \<and> 0 \<le> i \<and> i < int (length env)
            \<and> arrayGet (percentPeak env hs) i = Fin 100"
    using i(1) rng by auto
qed

lemma percentPeak_all_NaN:
  "\<not> isFinite (peakReference env hs) \<or> jle (peakReference env hs) (Fin 0)
   \<Longrightarrow> percentPeak env hs = replicate (length env) NaN"
  by (auto simp: percentPeak_def)

lemma foldl_plus_sum_list: "foldl (+) a (vs :: real list) = a + sum_list vs"
  by (induction vs arbitrary: a) auto

lemma meanAt_value:
  "meanAt cycles j = (if finites (column cycles j) = [] then NaN
     else Fin (sum_list (finites (column cycles j)) / real (length (finites (column cycles j)))))"
  by (auto simp: meanAt_def Let_def foldl_plus_sum_list)

lemma sq_fold:
  "foldl (\<lambda>s v. jadd s (jmul (jsub (Fin v) (Fin mu)) (jsub (Fin v) (Fin mu)))) (Fin a) vs
   = Fin (a + (\<Sum>v\<leftarrow>vs. (v - mu) ^ 2))"
  by (induction vs arbitrary: a) (auto simp: jsub_def power2_eq_square algebra_simps)

lemma sum_sq_nonneg: "0 \<le> (\<Sum>v\<leftarrow>vs. (v - mu) ^ 2)" for mu :: real
  by (induction vs) auto

lemma sdAt_value:
  "sdAt cycles j = (if length (finites (column cycles j)) < 2 then NaN
     else Fin (populationSD (finites (column cycles j))))"
proof (cases "length (finites (column cycles j)) < 2")
  case True
  then show ?thesis by (simp add: sdAt_def Let_def)
next
  case False
  let ?vs = "finites (column cycles j)"
  have ne: "?vs \<noteq> []" using False by auto
  have mu: "meanAt cycles j = Fin (sum_list ?vs / real (length ?vs))"
    using ne by (simp add: meanAt_value)
  have nn: "0 \<le> (\<Sum>v\<leftarrow>?vs. (v - sum_list ?vs / real (length ?vs)) ^ 2) / real (length ?vs)"
    using sum_sq_nonneg by (simp add: divide_nonneg_nonneg del: of_nat_0_le_iff)
  show ?thesis using False ne nn
    by (simp add: sdAt_def Let_def mu sq_fold populationSD_def)
qed

lemma meanAndSD_nth:
  assumes "cycles \<noteq> []" "j < length (hd cycles)"
  shows "fst (meanAndSD cycles) ! j = meanAt cycles j" "snd (meanAndSD cycles) ! j = sdAt cycles j"
  using assms by (simp_all add: meanAndSD_def Let_def)

lemma finites_all_Fin: "\<forall>v\<in>set xs. isFinite v \<Longrightarrow> map Fin (finites xs) = xs"
proof (induction xs)
  case (Cons x xs)
  then show ?case by (cases x) auto
qed simp

lemma jadd_fold_finite:
  "foldl (\<lambda>a c. jadd a (g c)) (Fin a0) (cs :: 'c list) = Fin (a0 + sum_list (finites (map g cs)))"
  if "\<forall>c\<in>set cs. isFinite (g c)"
  using that
proof (induction cs arbitrary: a0)
  case (Cons c cs)
  then obtain r where "g c = Fin r" by (cases "g c") auto
  then show ?case using Cons by (simp add: add.assoc)
qed simp

lemma jadd_NaN_right: "jadd a NaN = NaN"
  by (cases a) auto

lemma jadd_fold_NaN_acc: "foldl (\<lambda>a c. jadd a (g c)) NaN cs = NaN"
  by (induction cs) auto

lemma jadd_fold_NaN:
  "\<exists>c\<in>set cs. g c = NaN \<Longrightarrow> foldl (\<lambda>a c. jadd a (g c)) a0 cs = NaN"
proof (induction cs arbitrary: a0)
  case (Cons c cs)
  show ?case
  proof (cases "g c = NaN")
    case True
    have "jadd a0 NaN = NaN" by (cases a0) auto
    then show ?thesis using True by (simp add: jadd_fold_NaN_acc)
  next
    case False
    then show ?thesis using Cons by auto
  qed
qed simp

lemma meanStdOfCycles_finite:
  assumes "cycles \<noteq> []" "i < length (hd cycles)"
    and fin: "\<forall>c\<in>set cycles. isFinite (arrayGet c (int i))"
  shows "\<exists>m s. meanStdOfCycles cycles = Some (m, s)
     \<and> m ! i = Fin (sum_list (finites (column cycles i)) / real (length cycles))
     \<and> s ! i = Fin (sqrt ((\<Sum>v\<leftarrow>finites (column cycles i).
                  (v - sum_list (finites (column cycles i)) / real (length cycles)) ^ 2)
                / real (max 1 (length cycles - 1))))"
proof -
  let ?vs = "finites (column cycles i)"
  let ?mu = "sum_list ?vs / real (length cycles)"
  have n: "real (length cycles) \<noteq> 0" using assms(1) by simp
  have mean: "jdiv (foldl (\<lambda>a c. jadd a (arrayGet c (int i))) (Fin 0) cycles) (Fin (real (length cycles)))
      = Fin ?mu"
    using jadd_fold_finite [OF fin, of 0] n by (simp add: column_def)
  have col: "map Fin ?vs = column cycles i"
    using fin by (intro finites_all_Fin) (auto simp: column_def)
  have "foldl (\<lambda>a c. jadd a (jmul (jsub (arrayGet c (int i)) (Fin ?mu)) (jsub (arrayGet c (int i)) (Fin ?mu)))) (Fin 0) cycles
      = foldl (\<lambda>a v. jadd a (jmul (jsub v (Fin ?mu)) (jsub v (Fin ?mu)))) (Fin 0) (column cycles i)"
    by (simp add: column_def foldl_map)
  also have "\<dots> = foldl (\<lambda>a v. jadd a (jmul (jsub (Fin v) (Fin ?mu)) (jsub (Fin v) (Fin ?mu)))) (Fin 0) ?vs"
    by (subst col [symmetric]) (simp add: foldl_map)
  also have "\<dots> = Fin (\<Sum>v\<leftarrow>?vs. (v - ?mu) ^ 2)"
    by (simp add: sq_fold)
  finally have sq: "foldl (\<lambda>a c. jadd a (jmul (jsub (arrayGet c (int i)) (Fin ?mu)) (jsub (arrayGet c (int i)) (Fin ?mu)))) (Fin 0) cycles
      = Fin (\<Sum>v\<leftarrow>?vs. (v - ?mu) ^ 2)" .
  have nn: "0 \<le> (\<Sum>v\<leftarrow>?vs. (v - ?mu) ^ 2) / real (max 1 (length cycles - 1))"
    using sum_sq_nonneg by (simp add: divide_nonneg_nonneg del: of_nat_0_le_iff)
  have d: "real (max 1 (length cycles - 1)) \<noteq> 0" by simp
  show ?thesis
    using assms(1,2) nn d
    by (simp add: meanStdOfCycles_def Let_def mean sq del: of_nat_max)
qed

lemma meanStdOfCycles_NaN:
  assumes "cycles \<noteq> []" "i < length (hd cycles)"
    and nan: "\<exists>c\<in>set cycles. arrayGet c (int i) = NaN"
  shows "\<exists>m s. meanStdOfCycles cycles = Some (m, s) \<and> m ! i = NaN \<and> s ! i = NaN"
proof -
  have mean: "jdiv (foldl (\<lambda>a c. jadd a (arrayGet c (int i))) (Fin 0) cycles) (Fin (real (length cycles)))
      = NaN"
    using jadd_fold_NaN [OF nan] by simp
  have "jmul (jsub (arrayGet (hd cycles) (int i)) NaN) (jsub (arrayGet (hd cycles) (int i)) NaN) = NaN"
    by (simp add: jsub_def jadd_NaN_right)
  then have "\<exists>c\<in>set cycles. jmul (jsub (arrayGet c (int i)) NaN) (jsub (arrayGet c (int i)) NaN) = NaN"
    using assms(1) by (intro bexI [of _ "hd cycles"]) auto
  then have sq: "foldl (\<lambda>a c. jadd a (jmul (jsub (arrayGet c (int i)) NaN) (jsub (arrayGet c (int i)) NaN))) (Fin 0) cycles = NaN"
    by (rule jadd_fold_NaN)
  show ?thesis
    using assms(1,2) by (simp add: meanStdOfCycles_def Let_def mean sq)
qed










lemma jlt_irrefl: "\<not> jlt a a"
  by (cases a) (auto simp: jlt_def)

lemma foldl_keepBetter_stay:
  "\<forall>k\<in>set ks. \<exists>c. cand k = Some c \<and> \<not> jlt (det_score c) (det_score b)
   \<Longrightarrow> foldl (\<lambda>best k. keepBetter best (cand k)) (Some b) ks = Some b"
  by (induction ks) (auto simp: keepBetter_def)

lemma foldl_keepBetter_first:
  assumes "cand k0 = Some b"
    and "\<forall>k\<in>set ks. \<exists>c. cand k = Some c \<and> \<not> jlt (det_score c) (det_score b)"
  shows "foldl (\<lambda>best k. keepBetter best (cand k)) None (k0 # ks) = Some b"
  using assms foldl_keepBetter_stay [of ks cand b] by (simp add: keepBetter_def)

lemma ks_onset_Cons: "ks_onset = 1.2 # map (\<lambda>n. (13 + real n) / 10) [0..<28]"
proof -
  have "[0..<29] = 0 # map Suc [0..<28]"
    by (metis map_Suc_upt upt_conv_Cons zero_less_numeral eval_nat_numeral(3) numeral_plus_one semiring_norm(5) semiring_norm(8) Suc_numeral)
  then show ?thesis by (simp add: ks_onset_def comp_def algebra_simps)
qed

lemma ks_onset_range: "k \<in> set ks_onset \<Longrightarrow> 1.2 \<le> k \<and> k \<le> 4"
  by (auto simp: ks_onset_def)

lemma median_env_two: "median env_two = Fin 0"
  by (simp add: median_def env_two_def)

lemma scale_P2_env_two: "scale_P2 env_two = Fin (250 / 1349)"
  by (simp add: scale_P2_def mad_def median_def percentile_def env_two_def jsub_def jlt_def)

lemma mask_env_two:
  "0 \<le> t \<Longrightarrow> t < 1 \<Longrightarrow> map (\<lambda>v. jgt v (Fin t)) env_two = [False, True, False, False, True, False, False, False]"
  by (simp add: env_two_def)

lemma risingEdges_two:
  "risingEdges [False, True, False, False, True, False, False, False] = [(1, 2), (4, 5)]"
  by (simp add: risingEdges_def)

lemma js_round_ex: "js_round (10 * 100 / 1000) = 1" "js_round (10 * 300 / 1000) = 3" "js_round (10 * 0 / 1000) = 0"
  by (simp_all add: js_round_def)

lemma onsetCandidate_P2_env_two:
  assumes "1.2 \<le> k" "k \<le> 4"
  shows "onsetCandidate_P2 env_two 10 opts_ex (Fin 0) (Fin (250 / 1349)) k
     = Some \<lparr>det_k = KNum k, det_thr = Fin (k * (250 / 1349)), det_hs = [1, 4],
              det_score = scoreHS 0.7 [1, 4] 10 (0.35, 1.6) None\<rparr>"
proof -
  have t: "0 \<le> k * (250 / 1349)" "k * (250 / 1349) < 1" using assms by auto
  have len: "length env_two = 8" by (simp add: env_two_def)
  show ?thesis
    unfolding onsetCandidate_P2_def Let_def
    using assms
    by (simp add: opts_ex_def js_round_def mask_env_two risingEdges_two
          applyOffsetAndMerge_def len events_def)
qed

lemma detectHS_P2_env_two:
  "detectHS_P2 env_two 10 opts_ex
     = Inr \<lparr>det_k = KNum 1.2, det_thr = Fin (1.2 * (250 / 1349)), det_hs = [1, 4],
              det_score = scoreHS 0.7 [1, 4] 10 (0.35, 1.6) None\<rparr>"
proof -
  let ?cand = "onsetCandidate_P2 env_two 10 opts_ex (Fin 0) (Fin (250 / 1349))"
  let ?b = "\<lparr>det_k = KNum 1.2, det_thr = Fin (1.2 * (250 / 1349)), det_hs = [1, 4],
              det_score = scoreHS 0.7 [1, 4] 10 (0.35, 1.6) None\<rparr>"
  have first: "?cand 1.2 = Some ?b"
    by (rule onsetCandidate_P2_env_two) simp_all
  have rest: "\<forall>k\<in>set (map (\<lambda>n. (13 + real n) / 10) [0..<28]).
      \<exists>c. ?cand k = Some c \<and> \<not> jlt (det_score c) (det_score ?b)"
  proof
    fix k assume "k \<in> set (map (\<lambda>n. (13 + real n) / 10) [0..<28])"
    then have "k \<in> set ks_onset" by (simp add: ks_onset_Cons)
    then have "1.2 \<le> k \<and> k \<le> 4" by (rule ks_onset_range)
    then show "\<exists>c. ?cand k = Some c \<and> \<not> jlt (det_score c) (det_score ?b)"
      using onsetCandidate_P2_env_two [of k] by (simp add: jlt_irrefl)
  qed
  have sweep: "foldl (\<lambda>best k. keepBetter best (?cand k)) None ks_onset = Some ?b"
    unfolding ks_onset_Cons using first rest by (rule foldl_keepBetter_first)
  show ?thesis
    unfolding detectHS_P2_def Let_def median_env_two scale_P2_env_two
    using sweep by simp
qed

lemma ks_peak_Cons: "ks_peak = 2 # map (\<lambda>n. 2 + (1 + real n) / 4) [0..<16]"
proof -
  have "[0..<17] = 0 # map Suc [0..<16]"
    by (simp add: upt_conv_Cons map_Suc_upt del: upt_Suc)
  then show ?thesis by (simp add: ks_peak_def comp_def algebra_simps)
qed

lemma ks_peak_range: "k \<in> set ks_peak \<Longrightarrow> 2 \<le> k \<and> k \<le> 6"
  by (auto simp: ks_peak_def)

lemma median_env_mad: "median env_mad = Fin 0.5"
  by (simp add: median_def env_mad_def)

lemma mad_env_mad: "mad env_mad = Fin 0.5"
  by (simp add: mad_def median_def env_mad_def jsub_def)

lemma scale_P2_env_mad: "scale_P2 env_mad = Fin 0.5"
  by (simp add: scale_P2_def mad_env_mad jlt_def)

lemma scale_A1_env_mad: "scale_A1 env_mad = Fin 0.5"
  by (simp add: scale_A1_def madScalar_def median_def env_mad_def jsub_def jlt_def)

lemma mask_env_mad:
  "1 \<le> t \<Longrightarrow> t < 9
   \<Longrightarrow> map (\<lambda>v. jgt v (Fin t)) env_mad
       = [False, False, False, True, False, False, False, True, False, False]"
  by (simp add: env_mad_def)

lemma risingEdges_mad:
  "risingEdges [False, False, False, True, False, False, False, True, False, False] = [(3, 4), (7, 8)]"
  by (simp add: risingEdges_def)

lemma onsetCandidate_P2_env_mad:
  assumes "1.2 \<le> k" "k \<le> 4"
  shows "onsetCandidate_P2 env_mad 10 opts_ex (Fin 0.5) (Fin 0.5) k
     = Some \<lparr>det_k = KNum k, det_thr = Fin (0.5 + k * 0.5), det_hs = [3, 7],
              det_score = scoreHS 0.7 [3, 7] 10 (0.35, 1.6) None\<rparr>"
proof -
  have len: "length env_mad = 10" by (simp add: env_mad_def)
  show ?thesis
    unfolding onsetCandidate_P2_def Let_def
    using assms
    by (simp add: opts_ex_def js_round_def mask_env_mad risingEdges_mad
          applyOffsetAndMerge_def len events_def)
qed

lemma onsetCandidate_A3_env_mad:
  assumes "1.2 \<le> k" "k \<le> 4"
  shows "onsetCandidate_A3 env_mad 10 opts_ex (Fin 0.5) (Fin 0.5) k
     = Some \<lparr>det_k = KNum k, det_thr = Fin (0.5 + k * 0.5), det_hs = [3, 7],
              det_score = scoreHS 0.7 [3, 7] 10 (0.35, 1.6) None\<rparr>"
proof -
  have len: "length env_mad = 10" by (simp add: env_mad_def)
  show ?thesis
    unfolding onsetCandidate_A3_def Let_def
    using assms
    by (simp add: opts_ex_def js_round_def mask_env_mad risingEdges_mad len)
qed


lemma sweep_same:
  assumes "ks = k0 # ks'" and "\<forall>k\<in>set ks. \<exists>c. cand k = Some c \<and> det_score c = s"
  shows "foldl (\<lambda>best k. keepBetter best (cand k)) None ks = cand k0"
proof -
  from assms obtain b where b: "cand k0 = Some b" "det_score b = s" by auto
  have "\<forall>k\<in>set ks'. \<exists>c. cand k = Some c \<and> \<not> jlt (det_score c) (det_score b)"
    using assms b by (auto simp: jlt_irrefl)
  then show ?thesis using foldl_keepBetter_first [of cand k0 b ks'] assms(1) b(1) by simp
qed

lemma detectHS_P2_env_mad:
  "detectHS_P2 env_mad 10 opts_ex
     = Inr \<lparr>det_k = KNum 1.2, det_thr = Fin 1.1, det_hs = [3, 7],
              det_score = scoreHS 0.7 [3, 7] 10 (0.35, 1.6) None\<rparr>"
proof -
  let ?cand = "onsetCandidate_P2 env_mad 10 opts_ex (Fin 0.5) (Fin 0.5)"
  have "\<forall>k\<in>set ks_onset. \<exists>c. ?cand k = Some c \<and> det_score c = scoreHS 0.7 [3, 7] 10 (0.35, 1.6) None"
    using ks_onset_range onsetCandidate_P2_env_mad by fastforce
  then have "foldl (\<lambda>best k. keepBetter best (?cand k)) None ks_onset = ?cand 1.2"
    using ks_onset_Cons by (rule sweep_same [rotated])
  moreover have "?cand 1.2 = Some \<lparr>det_k = KNum 1.2, det_thr = Fin (0.5 + 1.2 * 0.5), det_hs = [3, 7],
              det_score = scoreHS 0.7 [3, 7] 10 (0.35, 1.6) None\<rparr>"
    by (rule onsetCandidate_P2_env_mad) simp_all
  ultimately have "foldl (\<lambda>best k. keepBetter best (?cand k)) None ks_onset = Some \<lparr>det_k = KNum 1.2, det_thr = Fin (0.5 + 1.2 * 0.5), det_hs = [3, 7],
              det_score = scoreHS 0.7 [3, 7] 10 (0.35, 1.6) None\<rparr>"
    by simp
  then show ?thesis
    unfolding detectHS_P2_def Let_def median_env_mad scale_P2_env_mad
    by simp
qed

lemma detectHS_A3_env_mad:
  "detectHS_A3 env_mad 10 opts_ex
     = Inr \<lparr>det_k = KNum 1.2, det_thr = Fin 1.1, det_hs = [3, 7],
              det_score = scoreHS 0.7 [3, 7] 10 (0.35, 1.6) None\<rparr>"
proof -
  let ?cand = "onsetCandidate_A3 env_mad 10 opts_ex (Fin 0.5) (Fin 0.5)"
  have "\<forall>k\<in>set ks_onset. \<exists>c. ?cand k = Some c \<and> det_score c = scoreHS 0.7 [3, 7] 10 (0.35, 1.6) None"
    using ks_onset_range onsetCandidate_A3_env_mad by fastforce
  then have "foldl (\<lambda>best k. keepBetter best (?cand k)) None ks_onset = ?cand 1.2"
    using ks_onset_Cons by (rule sweep_same [rotated])
  moreover have "?cand 1.2 = Some \<lparr>det_k = KNum 1.2, det_thr = Fin (0.5 + 1.2 * 0.5), det_hs = [3, 7],
              det_score = scoreHS 0.7 [3, 7] 10 (0.35, 1.6) None\<rparr>"
    by (rule onsetCandidate_A3_env_mad) simp_all
  ultimately have "foldl (\<lambda>best k. keepBetter best (?cand k)) None ks_onset = Some \<lparr>det_k = KNum 1.2, det_thr = Fin (0.5 + 1.2 * 0.5), det_hs = [3, 7],
              det_score = scoreHS 0.7 [3, 7] 10 (0.35, 1.6) None\<rparr>"
    by simp
  then show ?thesis
    unfolding detectHS_A3_def Let_def median_env_mad mad_env_mad
    by simp
qed

lemma burstPeak_env_mad: "burstPeak env_mad 3 3 = (3, Fin 9)" "burstPeak env_mad 7 7 = (7, Fin 9)"
  by (simp_all add: burstPeak_def upto.simps arrayGet_def env_mad_def)

lemma hsAroundPeak_env_mad:
  "hsAroundPeak env_mad 2 0 3 3 3 = 4" "hsAroundPeak env_mad 2 0 7 7 7 = 8"
  by (simp_all add: hsAroundPeak_def upto.simps)

lemma peakCandidate_A1_env_mad:
  assumes "2 \<le> k" "k \<le> 6"
  shows "peakCandidate_A1 env_mad 10 opts1_ex (Fin 0.5) (Fin 0.5) k
     = Some \<lparr>det_k = KNum k, det_thr = Fin (0.5 + k * (0.5 * 1.4826)), det_hs = [4, 8],
              det_score = scoreHS 1.0 [4, 8] 10 (0.6, 2.5) None\<rparr>"
proof -
  have len: "length env_mad = 10" by (simp add: env_mad_def)
  have t: "1 \<le> 0.5 + k * (0.5 * 1.4826)" "0.5 + k * (0.5 * 1.4826) < 9" using assms by auto
  have m: "map (\<lambda>v. jgt v (jadd (Fin 0.5) (jmul (Fin k) (jmul (Fin 0.5) (Fin 1.4826))))) env_mad
       = [False, False, False, True, False, False, False, True, False, False]"
    using mask_env_mad [OF t] by simp
  have r: "js_round (100 / 1000 * 10) = 1" "js_round (300 / 1000 * 10) = 3"
    "js_round (0 / 1000 * 10) = 0" "js_round (180 / 1000 * 10) = 2" "js_round (30 / 1000 * 10) = 0"
    by (simp_all add: js_round_def)
  have o: "minBurstMs opts1_ex = 100" "minGapMs opts1_ex = 300" "offsetMs opts1_ex = 0"
    "peakBackMs opts1_ex = 180" "peakForwardMs opts1_ex = 30" "plausibleStep opts1_ex = (0.6, 2.5)"
    "expectedCount opts1_ex = None" "enableEveryOtherFix opts1_ex = True"
    by (simp_all add: opts1_ex_def)
  show ?thesis
    unfolding peakCandidate_A1_def Let_def o r m risingEdges_mad len
    by (simp add: burstPeak_env_mad hsAroundPeak_env_mad mergeByMinGap_def
          chooseEveryOtherIfDouble_A1_def o)
qed

lemma detectHS_A1_env_mad:
  "detectHS_A1 env_mad 10 opts1_ex
     = Inr \<lparr>det_k = KNum 2, det_thr = Fin 1.9826, det_hs = [4, 8],
              det_score = scoreHS 1.0 [4, 8] 10 (0.6, 2.5) None\<rparr>"
proof -
  let ?cand = "peakCandidate_A1 env_mad 10 opts1_ex (Fin 0.5) (Fin 0.5)"
  have "\<forall>k\<in>set ks_peak. \<exists>c. ?cand k = Some c \<and> det_score c = scoreHS 1.0 [4, 8] 10 (0.6, 2.5) None"
    using ks_peak_range peakCandidate_A1_env_mad by fastforce
  then have "foldl (\<lambda>best k. keepBetter best (?cand k)) None ks_peak = ?cand 2"
    using ks_peak_Cons by (rule sweep_same [rotated])
  moreover have "?cand 2 = Some \<lparr>det_k = KNum 2, det_thr = Fin (0.5 + 2 * (0.5 * 1.4826)), det_hs = [4, 8],
              det_score = scoreHS 1.0 [4, 8] 10 (0.6, 2.5) None\<rparr>"
    by (rule peakCandidate_A1_env_mad) simp_all
  ultimately have "foldl (\<lambda>best k. keepBetter best (?cand k)) None ks_peak = Some \<lparr>det_k = KNum 2, det_thr = Fin (0.5 + 2 * (0.5 * 1.4826)), det_hs = [4, 8],
              det_score = scoreHS 1.0 [4, 8] 10 (0.6, 2.5) None\<rparr>"
    by simp
  then show ?thesis
    unfolding detectHS_A1_def Let_def median_env_mad scale_A1_env_mad
    by simp
qed

lemma median_env_merge: "median env_merge = Fin 0"
  by (simp add: median_def env_merge_def)

lemma scale_P2_env_merge: "scale_P2 env_merge = Fin (250 / 1349)"
  by (simp add: scale_P2_def mad_def median_def percentile_def env_merge_def jsub_def jlt_def)

lemma mask_env_merge:
  "0 \<le> t \<Longrightarrow> t < 1
   \<Longrightarrow> map (\<lambda>v. jgt v (Fin t)) env_merge
       = [False, True, False, True, False, False, False, False, True, False, False, False]"
  by (simp add: env_merge_def)

lemma risingEdges_merge:
  "risingEdges [False, True, False, True, False, False, False, False, True, False, False, False]
     = [(1, 2), (3, 4), (8, 9)]"
  by (simp add: risingEdges_def)

lemma onsetCandidate_P2_env_merge:
  assumes "1.2 \<le> k" "k \<le> 4"
  shows "onsetCandidate_P2 env_merge 10 opts_ex (Fin 0) (Fin (250 / 1349)) k
     = Some \<lparr>det_k = KNum k, det_thr = Fin (k * (250 / 1349)), det_hs = [1, 8],
              det_score = scoreHS 0.7 [1, 8] 10 (0.35, 1.6) None\<rparr>"
proof -
  have len: "length env_merge = 12" by (simp add: env_merge_def)
  show ?thesis
    unfolding onsetCandidate_P2_def Let_def
    using assms
    by (simp add: opts_ex_def js_round_def mask_env_merge risingEdges_merge
          applyOffsetAndMerge_def len events_def)
qed

lemma detectHS_P2_env_merge:
  "map_sum id det_hs (detectHS_P2 env_merge 10 opts_ex) = Inr [1, 8]"
proof -
  let ?cand = "onsetCandidate_P2 env_merge 10 opts_ex (Fin 0) (Fin (250 / 1349))"
  have "\<forall>k\<in>set ks_onset. \<exists>c. ?cand k = Some c \<and> det_score c = scoreHS 0.7 [1, 8] 10 (0.35, 1.6) None"
    using ks_onset_range onsetCandidate_P2_env_merge by fastforce
  then have "foldl (\<lambda>best k. keepBetter best (?cand k)) None ks_onset = ?cand 1.2"
    using ks_onset_Cons by (rule sweep_same [rotated])
  moreover have "?cand 1.2 = Some \<lparr>det_k = KNum 1.2, det_thr = Fin (1.2 * (250 / 1349)), det_hs = [1, 8],
              det_score = scoreHS 0.7 [1, 8] 10 (0.35, 1.6) None\<rparr>"
    by (rule onsetCandidate_P2_env_merge) simp_all
  ultimately have "foldl (\<lambda>best k. keepBetter best (?cand k)) None ks_onset = Some \<lparr>det_k = KNum 1.2, det_thr = Fin (1.2 * (250 / 1349)), det_hs = [1, 8],
              det_score = scoreHS 0.7 [1, 8] 10 (0.35, 1.6) None\<rparr>"
    by simp
  then show ?thesis
    unfolding detectHS_P2_def Let_def median_env_merge scale_P2_env_merge
    by simp
qed

lemma gaps_strict:
  "gapsAtLeast g hs \<Longrightarrow> 1 \<le> g \<Longrightarrow> sorted hs \<Longrightarrow> sorted_wrt (<) hs \<and> distinct hs"
proof -
  assume a: "gapsAtLeast g hs" "1 \<le> g" "sorted hs"
  have "sorted_wrt (\<lambda>x y. y - x \<ge> g) hs" using a(3,1) by (rule sorted_wrt_of_gaps)
  then have "sorted_wrt (<) hs"
    by (rule sorted_wrt_mono_rel [rotated]) (use a(2) in auto)
  then show ?thesis by (simp add: strict_sorted_iff)
qed

lemma applyOffsetAndMerge_Some:
  assumes "applyOffsetAndMerge raw off g n = map Some xs"
  shows "sorted xs \<and> gapsAtLeast g xs \<and> (\<forall>x\<in>set xs. 0 \<le> x \<and> x < n \<and> x - off \<in> set raw)"
proof (cases "raw = []")
  case True
  then have "xs = []" using assms by (simp add: applyOffsetAndMerge_def)
  then show ?thesis by simp
next
  case False
  let ?s = "sort (filter (\<lambda>v. v \<ge> 0 \<and> v < n) (map (\<lambda>v. v + off) raw))"
  from assms False obtain h0 rest where s: "?s = h0 # rest"
    by (cases ?s) (auto simp: applyOffsetAndMerge_def)
  let ?m = "mergeLoop [h0] rest g"
  have "map Some xs = map Some ?m"
    using False s assms by (simp add: applyOffsetAndMerge_def)
  then have r: "xs = ?m" by (simp add: inj_map_eq_map)
  have "sorted ([h0] @ rest)" using s by (metis append_Cons append_Nil sorted_sort)
  then have inv: "sorted ?m \<and> sorted_wrt (\<lambda>x y. y - x \<ge> g) ?m"
    by (intro mergeLoop_inv) auto
  have "set ?m \<subseteq> set ?s" using mergeLoop_set [of "[h0]" rest g] s by auto
  then have "\<forall>x\<in>set ?m. 0 \<le> x \<and> x < n \<and> x - off \<in> set raw" by auto
  then show ?thesis using r inv gaps_of_sorted_wrt by blast
qed

lemma mergeByMinGap_pair:
  "h2 - h1 < g \<Longrightarrow> mergeByMinGap g [(h1, s1), (h2, s2)] = (if jgt s2 s1 then [(h2, s2)] else [(h1, s1)])"
  by (simp add: mergeByMinGap_def)

lemma applyOffsetAndMerge_pair:
  assumes "h1 \<le> h2" "h2 - h1 < g" "0 \<le> h1 + off" "h2 + off < n"
  shows "applyOffsetAndMerge [h1, h2] off g n = [Some (h1 + off)]"
  using assms by (simp add: applyOffsetAndMerge_def)

lemma mergeLoop_pair: "h2 - h1 < g \<Longrightarrow> mergeLoop [h1] [h2] g = [h1]"
  by simp

lemma not_jgt_chain: "\<not> jgt a b \<Longrightarrow> jgt c b \<Longrightarrow> \<not> jgt a c"
  by (cases a; cases b; cases c) auto

lemma not_jgt_refl: "\<not> jgt a a"
  by (cases a) auto

lemma mergeByMinGapLoop_dominates:
  assumes "out \<noteq> []"
    and "\<forall>e\<in>set seen. \<exists>k\<in>set out. \<not> jgt (snd e) (snd k)"
  shows "\<forall>e\<in>set seen \<union> set rest. \<exists>k\<in>set (mergeByMinGapLoop g out rest). \<not> jgt (snd e) (snd k)"
  using assms
proof (induction rest arbitrary: out seen)
  case Nil
  then show ?case by simp
next
  case (Cons e rest)
  obtain h s where e: "e = (h, s)" by (cases e)
  obtain bs l where out: "out = bs @ [l]" using Cons.prems(1) by (metis append_butlast_last_id)
  consider (replace) "h - fst l < g" "jgt s (snd l)" | (drop) "h - fst l < g" "\<not> jgt s (snd l)"
    | (push) "\<not> h - fst l < g" by blast
  then show ?case
  proof cases
    case replace
    have "\<forall>e'\<in>set (e # seen). \<exists>k\<in>set (bs @ [(h, s)]). \<not> jgt (snd e') (snd k)"
    proof
      fix e' assume "e' \<in> set (e # seen)"
      then consider "e' = e" | "e' \<in> set seen" by auto
      then show "\<exists>k\<in>set (bs @ [(h, s)]). \<not> jgt (snd e') (snd k)"
      proof cases
        case 1
        then show ?thesis by (auto simp: e not_jgt_refl)
      next
        case 2
        then obtain k where k: "k \<in> set out" "\<not> jgt (snd e') (snd k)" using Cons.prems(2) by blast
        show ?thesis
        proof (cases "k = l")
          case True
          then have "\<not> jgt (snd e') s" using k(2) replace(2) not_jgt_chain by blast
          then show ?thesis by auto
        next
          case False
          then have "k \<in> set bs" using k(1) out by auto
          then show ?thesis using k(2) by auto
        qed
      qed
    qed
    then have "\<forall>e'\<in>set (e # seen) \<union> set rest.
        \<exists>k\<in>set (mergeByMinGapLoop g (bs @ [(h, s)]) rest). \<not> jgt (snd e') (snd k)"
      by (intro Cons.IH) auto
    then show ?thesis using replace by (simp add: e out)
  next
    case drop
    have "\<forall>e'\<in>set (e # seen). \<exists>k\<in>set out. \<not> jgt (snd e') (snd k)"
      using Cons.prems(2) drop(2) by (auto simp: e out)
    then have "\<forall>e'\<in>set (e # seen) \<union> set rest.
        \<exists>k\<in>set (mergeByMinGapLoop g out rest). \<not> jgt (snd e') (snd k)"
      using Cons.prems(1) by (intro Cons.IH) auto
    then show ?thesis using drop by (simp add: e out)
  next
    case push
    have "\<forall>e'\<in>set (e # seen). \<exists>k\<in>set (out @ [(h, s)]). \<not> jgt (snd e') (snd k)"
      using Cons.prems(2) by (auto simp: e not_jgt_refl)
    then have "\<forall>e'\<in>set (e # seen) \<union> set rest.
        \<exists>k\<in>set (mergeByMinGapLoop g (out @ [(h, s)]) rest). \<not> jgt (snd e') (snd k)"
      by (intro Cons.IH) auto
    then show ?thesis using push by (simp add: e out)
  qed
qed

lemma mergeByMinGap_dominates:
  "\<forall>e\<in>set evs. \<exists>k\<in>set (mergeByMinGap g evs). \<not> jgt (snd e) (snd k)"
proof (cases evs)
  case Nil
  then show ?thesis by simp
next
  case (Cons e rest)
  have "\<forall>e'\<in>set [e] \<union> set rest. \<exists>k\<in>set (mergeByMinGapLoop g [e] rest). \<not> jgt (snd e') (snd k)"
    by (intro mergeByMinGapLoop_dominates) (auto simp: not_jgt_refl)
  then show ?thesis using Cons by (simp add: mergeByMinGap_def)
qed






lemma applyHsToExistingResult_hs:
  "res_hs (applyHsToExistingResult res hs nPoints)
     = filter (\<lambda>i. i \<ge> 0 \<and> i < int (length (res_envRaw res))) hs"
  "res_envRaw (applyHsToExistingResult res hs nPoints) = res_envRaw res"
  by (simp_all add: applyHsToExistingResult_def Let_def)

lemma length_interpolateGap: "length (interpolateGap l r gap) = gap - 1"
  by (simp add: interpolateGap_def)

lemma finite_interpolateGap: "v \<in> set (interpolateGap l r gap) \<Longrightarrow> isFinite v"
  by (auto simp: interpolateGap_def)

lemma fillGaps_Cons_finite: "fillGaps left (Fin r # ys) = Fin r # fillGaps r ys"
  by simp

lemma fillGaps_Cons_gap:
  "\<not> isFinite v \<Longrightarrow> fillGaps left (v # ys)
     = interpolateGap left (case dropWhile (\<lambda>u. \<not> isFinite u) ys of Fin r # _ \<Rightarrow> r | _ \<Rightarrow> left)
         (length (takeWhile (\<lambda>u. \<not> isFinite u) ys) + 2)
       @ fillGaps left (dropWhile (\<lambda>u. \<not> isFinite u) ys)"
  by (simp add: Let_def)


lemma takeWhile_dropWhile_length:
  "length (takeWhile P ys) + length (dropWhile P ys) = length ys"
proof -
  have "length ys = length (takeWhile P ys @ dropWhile P ys)"
    by (simp only: takeWhile_dropWhile_id)
  also have "\<dots> = length (takeWhile P ys) + length (dropWhile P ys)"
    by (rule length_append)
  finally show ?thesis by (rule sym)
qed

lemma fillGaps_length: "length (fillGaps left ys) = length ys"
proof (induction left ys rule: fillGaps.induct)
  case (1 left)
  show ?case by simp
next
  case (2 left v ys)
  show ?case
  proof (cases v)
    case (Fin r)
    then have "length (fillGaps r ys) = length ys" using 2(1) by simp
    then show ?thesis by (simp only: Fin fillGaps_Cons_finite length_Cons)
  next
    case PInf
    then have nf: "\<not> isFinite v" by simp
    have "length (fillGaps left (dropWhile (\<lambda>u. \<not> isFinite u) ys)) = length (dropWhile (\<lambda>u. \<not> isFinite u) ys)"
      using 2(2) [OF nf refl refl refl refl] .
    then show ?thesis
      using takeWhile_dropWhile_length [of "\<lambda>u. \<not> isFinite u" ys]
      by (simp add: fillGaps_Cons_gap [OF nf] length_interpolateGap del: fillGaps.simps)
  next
    case NInf
    then have nf: "\<not> isFinite v" by simp
    have "length (fillGaps left (dropWhile (\<lambda>u. \<not> isFinite u) ys)) = length (dropWhile (\<lambda>u. \<not> isFinite u) ys)"
      using 2(2) [OF nf refl refl refl refl] .
    then show ?thesis
      using takeWhile_dropWhile_length [of "\<lambda>u. \<not> isFinite u" ys]
      by (simp add: fillGaps_Cons_gap [OF nf] length_interpolateGap del: fillGaps.simps)
  next
    case NaN
    then have nf: "\<not> isFinite v" by simp
    have "length (fillGaps left (dropWhile (\<lambda>u. \<not> isFinite u) ys)) = length (dropWhile (\<lambda>u. \<not> isFinite u) ys)"
      using 2(2) [OF nf refl refl refl refl] .
    then show ?thesis
      using takeWhile_dropWhile_length [of "\<lambda>u. \<not> isFinite u" ys]
      by (simp add: fillGaps_Cons_gap [OF nf] length_interpolateGap del: fillGaps.simps)
  qed
qed


lemma fillGaps_finite: "v \<in> set (fillGaps left ys) \<Longrightarrow> isFinite v"
proof (induction left ys arbitrary: v rule: fillGaps.induct)
  case (1 left)
  then show ?case by simp
next
  case (2 left u ys)
  show ?case
  proof (cases "isFinite u")
    case True
    then obtain r where r: "u = Fin r" by (cases u) auto
    then have "v = Fin r \<or> v \<in> set (fillGaps r ys)"
      using 2(3) by (simp add: fillGaps_Cons_finite del: fillGaps.simps)
    then show ?thesis using 2(1) [OF True] r by auto
  next
    case False
    have "v \<in> set (interpolateGap left (case dropWhile (\<lambda>u. \<not> isFinite u) ys of Fin r # _ \<Rightarrow> r | _ \<Rightarrow> left)
         (length (takeWhile (\<lambda>u. \<not> isFinite u) ys) + 2))
       \<or> v \<in> set (fillGaps left (dropWhile (\<lambda>u. \<not> isFinite u) ys))"
      using 2(3) by (simp add: fillGaps_Cons_gap [OF False] del: fillGaps.simps)
    then show ?thesis
      using finite_interpolateGap 2(2) [OF False refl refl refl refl] by blast
  qed
qed


lemma sanitizeArray_cases:
  "(\<exists>r rest. drop (length (takeWhile (\<lambda>u. \<not> isFinite u) x)) x = Fin r # rest
      \<and> sanitizeArray x = replicate (length (takeWhile (\<lambda>u. \<not> isFinite u) x)) (Fin r) @ Fin r # fillGaps r rest)
   \<or> sanitizeArray x = replicate (length x) (Fin 0)"
proof (cases "drop (length (takeWhile (\<lambda>u. \<not> isFinite u) x)) x")
  case Nil
  then show ?thesis by (simp add: sanitizeArray_def del: fillGaps.simps)
next
  case (Cons a rest)
  then show ?thesis by (cases a) (simp_all add: sanitizeArray_def del: fillGaps.simps)
qed

lemma sanitizeArray_length: "length (sanitizeArray x) = length x"
proof -
  let ?first = "length (takeWhile (\<lambda>u. \<not> isFinite u) x)"
  from sanitizeArray_cases [of x] show ?thesis
  proof
    assume "\<exists>r rest. drop ?first x = Fin r # rest
      \<and> sanitizeArray x = replicate ?first (Fin r) @ Fin r # fillGaps r rest"
    then obtain r rest where d: "drop ?first x = Fin r # rest"
      and s: "sanitizeArray x = replicate ?first (Fin r) @ Fin r # fillGaps r rest" by blast
    have "length (drop ?first x) = Suc (length rest)" using d by simp
    then have "length x - ?first = Suc (length rest)" by simp
    then have "?first + Suc (length rest) = length x" by linarith
    then show ?thesis by (simp add: s fillGaps_length del: fillGaps.simps)
  next
    assume "sanitizeArray x = replicate (length x) (Fin 0)"
    then show ?thesis by simp
  qed
qed

lemma sanitizeArray_finite: "v \<in> set (sanitizeArray x) \<Longrightarrow> isFinite v"
proof -
  assume v: "v \<in> set (sanitizeArray x)"
  let ?first = "length (takeWhile (\<lambda>u. \<not> isFinite u) x)"
  from sanitizeArray_cases [of x] show ?thesis
  proof
    assume "\<exists>r rest. drop ?first x = Fin r # rest
      \<and> sanitizeArray x = replicate ?first (Fin r) @ Fin r # fillGaps r rest"
    then obtain r rest where
      s: "sanitizeArray x = replicate ?first (Fin r) @ Fin r # fillGaps r rest" by blast
    then have "v = Fin r \<or> v \<in> set (fillGaps r rest)" using v by (auto simp del: fillGaps.simps)
    then show ?thesis using fillGaps_finite by auto
  next
    assume "sanitizeArray x = replicate (length x) (Fin 0)"
    then show ?thesis using v by auto
  qed
qed

lemma finites_length_all: "\<forall>v\<in>set xs. isFinite v \<Longrightarrow> length (finites xs) = length xs"
  using finites_all_Fin [of xs] length_map [of Fin "finites xs"] by simp

lemma varRatioFinite_sanitized: "x \<noteq> [] \<Longrightarrow> varRatioFinite (sanitizeArray x) = 1"
proof -
  assume "x \<noteq> []"
  then have "length (sanitizeArray x) \<noteq> 0" by (simp add: sanitizeArray_length)
  moreover have "length (finites (sanitizeArray x)) = length (sanitizeArray x)"
    by (rule finites_length_all) (simp add: sanitizeArray_finite)
  ultimately show ?thesis by (simp add: varRatioFinite_def)
qed

lemma fillGaps_all_finite: "\<forall>v\<in>set ys. isFinite v \<Longrightarrow> fillGaps left ys = ys"
proof (induction ys arbitrary: left)
  case Nil
  show ?case by simp
next
  case (Cons a ys)
  then obtain r where r: "a = Fin r" by (cases a) auto
  have "fillGaps r ys = ys" using Cons by simp
  then show ?case by (simp add: r fillGaps_Cons_finite del: fillGaps.simps)
qed

lemma sanitizeArray_all_finite: "\<forall>v\<in>set x. isFinite v \<Longrightarrow> sanitizeArray x = x"
proof (cases x)
  case Nil
  then show ?thesis by (simp add: sanitizeArray_def)
next
  case (Cons a rest)
  assume fin: "\<forall>v\<in>set x. isFinite v"
  then obtain r where "a = Fin r" using Cons by (cases a) auto
  then show ?thesis using Cons fin by (simp add: sanitizeArray_def fillGaps_all_finite del: fillGaps.simps)
qed

lemma computePipeline_P1_short:
  assumes "real (length x) < fs * 2"
  shows "computePipeline_P1 t x fs params expected
       = (if x = [] then Inl InsufficientData_ratio else Inl InsufficientData_short)"
proof (cases "x = []")
  case True
  then have "sanitizeArray x = []" by (simp add: sanitizeArray_def)
  then show ?thesis using True by (simp add: computePipeline_P1_def varRatioFinite_def)
next
  case False
  then show ?thesis
    using assms
    by (simp add: computePipeline_P1_def Let_def varRatioFinite_sanitized sanitizeArray_length)
qed

lemma computePipeline_P1_proceeds:
  assumes "real (length x) \<ge> fs * 2" "varRatioFinite x \<ge> 0.95"
    "p_hp params < fs / 2" "p_lp params < fs / 2"
  shows "computePipeline_P1 t x fs params expected
       = detectAndNormalize_P1 t (map (\<lambda>v. jsub v (mean_P1 (sanitizeArray x))) (sanitizeArray x))
           1 fs params expected"
proof -
  have "x \<noteq> []" using assms(2) by (auto simp: varRatioFinite_def)
  then show ?thesis
    using assms
    by (simp add: computePipeline_P1_def Let_def varRatioFinite_sanitized sanitizeArray_length)
qed

lemma detectHS_P1_error: "detectHS_P1 env fs opts = Inl e \<Longrightarrow> e = DetectionFailure"
  by (simp add: detectHS_P1_def Let_def split: option.splits if_splits)

lemma detectAndNormalize_P1_error:
  "detectAndNormalize_P1 t y ratio fs params expected = Inl e \<Longrightarrow> e = DetectionFailure"
  using detectHS_P1_error
  by (fastforce simp: detectAndNormalize_P1_def Let_def split: sum.splits)

lemma validity_floor_never_fires:
  assumes "x \<noteq> []"
  shows "computePipeline_P1 t x fs params expected \<noteq> Inl InsufficientData_ratio"
proof
  assume a: "computePipeline_P1 t x fs params expected = Inl InsufficientData_ratio"
  have r: "varRatioFinite (sanitizeArray x) = 1" using assms by (rule varRatioFinite_sanitized)
  have "\<exists>y ratio. detectAndNormalize_P1 t y ratio fs params expected = Inl InsufficientData_ratio"
    using a unfolding computePipeline_P1_def Let_def r
    by (auto split: if_splits)
  then show False using detectAndNormalize_P1_error by fastforce
qed

section \<open>Claims\<close>

text \<open>
  C2. No detector returns fewer than two events: a call either fails with the detection
  failure or returns a result with at least two events. This holds for the detector
  with the peak fallback, for the peak-based detector and for the onset-only detector.
  Each of them fails on every constant envelope, so on every all-zero and every all-NaN
  envelope, of any length and with any parameters.
\<close>
theorem C2_detectHS_two_events_or_failure:
  "(case detectHS_P2 env fs opts of
      Inl e \<Rightarrow> e = DetectionFailure
    | Inr r \<Rightarrow> 2 \<le> length (det_hs r))
   \<and> (case detectHS_A1 env fs opts1 of
      Inl e \<Rightarrow> e = DetectionFailure
    | Inr r \<Rightarrow> 2 \<le> length (det_hs r))
   \<and> (case detectHS_A3 env fs opts of
      Inl e \<Rightarrow> e = DetectionFailure
    | Inr r \<Rightarrow> 2 \<le> length (det_hs r))
   \<and> detectHS_P2 (replicate n (Fin 0)) fs opts = Inl DetectionFailure
   \<and> detectHS_P2 (replicate n NaN) fs opts = Inl DetectionFailure
   \<and> detectHS_A1 (replicate n (Fin 0)) fs opts1 = Inl DetectionFailure
   \<and> detectHS_A1 (replicate n NaN) fs opts1 = Inl DetectionFailure
   \<and> detectHS_A3 (replicate n (Fin 0)) fs opts = Inl DetectionFailure
   \<and> detectHS_A3 (replicate n NaN) fs opts = Inl DetectionFailure"
proof -
  have "2 \<le> length (det_hs r)" if "detectHS_P2 env fs opts = Inr r" for r
    using detectHS_P2_eventsOK [OF that] by (simp add: eventsOK_def)
  moreover have "e = DetectionFailure" if "detectHS_P2 env fs opts = Inl e" for e
    using detectHS_P2_error [OF that] .
  moreover have "2 \<le> length (det_hs r)" if "detectHS_A1 env fs opts1 = Inr r" for r
    using detectHS_A1_eventsOK [OF that] by (simp add: eventsOK_def)
  moreover have "e = DetectionFailure" if "detectHS_A1 env fs opts1 = Inl e" for e
    using detectHS_A1_error [OF that] .
  moreover have "2 \<le> length (det_hs r)" if "detectHS_A3 env fs opts = Inr r" for r
    using detectHS_A3_eventsOK [OF that] by (simp add: eventsOK_def)
  moreover have "e = DetectionFailure" if "detectHS_A3 env fs opts = Inl e" for e
    using detectHS_A3_error [OF that] .
  ultimately show ?thesis
    by (simp add: detectHS_P2_constant detectHS_A1_constant detectHS_A3_constant split: sum.split)
qed

theorem C2_detectHS_two_events_or_failure_witness:
  "map_sum id det_hs (detectHS_P2 env_mad 10 opts_ex) = Inr [3, 7]
   \<and> 2 \<le> length [3, 7 :: int]
   \<and> detectHS_P2 (replicate 5 (Fin 0)) 10 opts_ex = Inl DetectionFailure
   \<and> detectHS_P2 (replicate 5 NaN) 10 opts_ex = Inl DetectionFailure
   \<and> detectHS_A1 (replicate 5 (Fin 0)) 10 opts1_ex = Inl DetectionFailure
   \<and> detectHS_A1 (replicate 5 NaN) 10 opts1_ex = Inl DetectionFailure
   \<and> detectHS_A3 (replicate 5 (Fin 0)) 10 opts_ex = Inl DetectionFailure
   \<and> detectHS_A3 (replicate 5 NaN) 10 opts_ex = Inl DetectionFailure"
proof -
  note inst = C2_detectHS_two_events_or_failure [of env_mad 10 opts_ex opts1_ex 5]
  have "2 \<le> length [3, 7 :: int]"
    using inst unfolding detectHS_P2_env_mad by simp
  then show ?thesis
    unfolding detectHS_P2_env_mad using inst by simp
qed

text \<open>
  C1 (amended). For every envelope and parameter setting for which a detector returns a
  result, the events are ascending and each lies at least \<open>minGap\<close> samples after its
  predecessor (\<open>hs[i] + minGap \<le> hs[i+1]\<close>, with equality allowed); they are strictly
  ascending and free of duplicates whenever \<open>minGap\<close> is at least 1, which the peak-based
  detector enforces. The invariant is established by the offset-and-merge step and by
  the merge by strength, and it is preserved by every-other and every-Nth decimation.
\<close>
theorem C1_event_gaps:
  "(detectHS_P2 env fs opts = Inr r \<longrightarrow>
      sorted (det_hs r) \<and> gapsAtLeast (js_round (fs * minGapMs opts / 1000)) (det_hs r))
   \<and> (detectHS_A3 env fs opts = Inr r3 \<longrightarrow>
      sorted (det_hs r3) \<and> gapsAtLeast (js_round (fs * minGapMs opts / 1000)) (det_hs r3))
   \<and> (detectHS_A1 env fs opts1 = Inr r1 \<longrightarrow>
      sorted_wrt (<) (det_hs r1) \<and> distinct (det_hs r1)
      \<and> gapsAtLeast (max 1 (js_round ((minGapMs opts1 / 1000) * fs))) (det_hs r1))
   \<and> (applyOffsetAndMerge raw off g n = map Some xs \<longrightarrow> sorted xs \<and> gapsAtLeast g xs)
   \<and> (sorted (map fst evs) \<longrightarrow>
      sorted (map fst (mergeByMinGap g evs)) \<and> gapsAtLeast g (map fst (mergeByMinGap g evs)))
   \<and> (sorted hs \<and> gapsAtLeast g hs \<longrightarrow>
      sorted (everyNth m k hs) \<and> gapsAtLeast g (everyNth m k hs))
   \<and> (sorted hs \<and> gapsAtLeast g hs \<and> 1 \<le> g \<longrightarrow> sorted_wrt (<) hs \<and> distinct hs)"
proof -
  have p2: "sorted (det_hs r) \<and> gapsAtLeast (js_round (fs * minGapMs opts / 1000)) (det_hs r)"
    if "detectHS_P2 env fs opts = Inr r"
    using detectHS_P2_eventsOK [OF that] by (simp add: eventsOK_def)
  have a3: "sorted (det_hs r3) \<and> gapsAtLeast (js_round (fs * minGapMs opts / 1000)) (det_hs r3)"
    if "detectHS_A3 env fs opts = Inr r3"
    using detectHS_A3_eventsOK [OF that] by (simp add: eventsOK_def)
  have a1: "sorted_wrt (<) (det_hs r1) \<and> distinct (det_hs r1)
      \<and> gapsAtLeast (max 1 (js_round ((minGapMs opts1 / 1000) * fs))) (det_hs r1)"
    if "detectHS_A1 env fs opts1 = Inr r1"
  proof -
    have ok: "sorted (det_hs r1)"
      "gapsAtLeast (max 1 (js_round ((minGapMs opts1 / 1000) * fs))) (det_hs r1)"
      using detectHS_A1_eventsOK [OF that] by (simp_all add: eventsOK_def)
    then show ?thesis using gaps_strict [OF ok(2) _ ok(1)] by simp
  qed
  have om: "sorted xs \<and> gapsAtLeast g xs" if "applyOffsetAndMerge raw off g n = map Some xs"
    using applyOffsetAndMerge_Some [OF that] by simp
  have mg: "sorted (map fst (mergeByMinGap g evs)) \<and> gapsAtLeast g (map fst (mergeByMinGap g evs))"
    if "sorted (map fst evs)"
    using mergeByMinGap_inv [OF that] by simp
  have dec: "sorted (everyNth m k hs) \<and> gapsAtLeast g (everyNth m k hs)"
    if "sorted hs \<and> gapsAtLeast g hs"
    using eventsOK_subseq [OF _ _ everyNth_subseq] that by blast
  have st: "sorted_wrt (<) hs \<and> distinct hs" if "sorted hs \<and> gapsAtLeast g hs \<and> 1 \<le> g"
    using gaps_strict that by blast
  show ?thesis using p2 a3 a1 om mg dec st by blast
qed

theorem C1_event_gaps_witness:
  "map_sum id det_hs (detectHS_P2 env_mad 10 opts_ex) = Inr [3, 7]
   \<and> map_sum id det_hs (detectHS_A3 env_mad 10 opts_ex) = Inr [3, 7]
   \<and> map_sum id det_hs (detectHS_A1 env_mad 10 opts1_ex) = Inr [4, 8]
   \<and> js_round (10 * minGapMs opts_ex / 1000) = 3
   \<and> sorted [3, 7 :: int] \<and> gapsAtLeast 3 [3, 7]
   \<and> sorted_wrt (<) [4, 8 :: int] \<and> distinct [4, 8 :: int] \<and> gapsAtLeast 3 [4, 8]
   \<and> applyOffsetAndMerge [1, 3, 8] 0 3 12 = map Some [1, 8]
   \<and> mergeByMinGap 3 [(1, Fin 1), (3, Fin 5), (8, Fin 1)] = [(3, Fin 5), (8, Fin 1)]
   \<and> everyNth 2 0 [1, 4, 7, 10, 13 :: int] = [1, 7, 13]
   \<and> gapsAtLeast 3 [1, 7, 13]"
proof -
  note inst = C1_event_gaps [of env_mad 10 opts_ex _ _ opts1_ex _ "[1, 3, 8]" 0 3 12 "[1, 8]"
      "[(1, Fin 1), (3, Fin 5), (8, Fin 1)]" "[1, 4, 7, 10, 13]" 2 0]
  have om: "applyOffsetAndMerge [1, 3, 8] 0 3 12 = map Some [1, 8]"
    by (simp add: applyOffsetAndMerge_def)
  have mg: "mergeByMinGap 3 [(1, Fin 1), (3, Fin 5), (8, Fin 1)] = [(3, Fin 5), (8, Fin 1)]"
    by (simp add: mergeByMinGap_def)
  have en: "everyNth 2 0 [1, 4, 7, 10, 13 :: int] = [1, 7, 13]"
    by (simp add: everyNth_def enumerate_eq_zip upt_rec)
  have "gapsAtLeast 3 (everyNth 2 0 [1, 4, 7, 10, 13])"
    using inst by simp
  then have dec: "gapsAtLeast 3 [1, 7, 13]" by (simp only: en)
  have r: "js_round (10 * minGapMs opts_ex / 1000) = 3" by (simp add: js_round_def opts_ex_def)
  have p2: "sorted [3, 7 :: int] \<and> gapsAtLeast 3 [3, 7]"
    using inst detectHS_P2_env_mad r by simp
  have a1: "sorted_wrt (<) [4, 8 :: int] \<and> distinct [4, 8 :: int] \<and> gapsAtLeast 3 [4, 8]"
    using inst detectHS_A1_env_mad by simp
  show ?thesis
    unfolding detectHS_P2_env_mad detectHS_A3_env_mad detectHS_A1_env_mad r om mg en
    using p2 a1 dec by simp
qed

text \<open>
  The claim as stated asks for \<open>hs[i] < hs[i+1] - minGap\<close>. With a minimum gap of three
  samples the detector returns the events 1 and 4, which are exactly three apart.
\<close>
theorem C1_strict_gap_counterexample:
  "map_sum id det_hs (detectHS_P2 env_two 10 opts_ex) = Inr [1, 4]
   \<and> js_round (10 * minGapMs opts_ex / 1000) = 3
   \<and> \<not> ((1 :: int) < 4 - 3)"
proof -
  have r: "js_round (10 * minGapMs opts_ex / 1000) = 3" by (simp add: js_round_def opts_ex_def)
  show ?thesis unfolding detectHS_P2_env_two r by simp
qed

text \<open>
  C10. Every event index that a detector returns lies in \<open>[0, length env)\<close>, so the scan
  of the percent-peak reference between the first and the last event stays inside the
  envelope. In the offset-and-merge step each kept index is a raw index shifted by
  exactly the offset: an index that the shift moves out of range is dropped, not
  clamped. \<open>applyHsToExistingResult\<close> keeps of a reused event list exactly the indices that
  lie inside the target envelope, which it leaves unchanged.
\<close>
theorem C10_events_in_range:
  "(detectHS_P2 env fs opts = Inr r \<longrightarrow>
      (\<forall>h\<in>set (det_hs r). 0 \<le> h \<and> h < int (length env))
      \<and> (\<forall>i. hd (det_hs r) \<le> i \<and> i < last (det_hs r) \<longrightarrow> 0 \<le> i \<and> i < int (length env)))
   \<and> (detectHS_A3 env fs opts = Inr r3 \<longrightarrow>
      (\<forall>h\<in>set (det_hs r3). 0 \<le> h \<and> h < int (length env)))
   \<and> (detectHS_A1 env fs opts1 = Inr r1 \<longrightarrow>
      (\<forall>h\<in>set (det_hs r1). 0 \<le> h \<and> h < int (length env)))
   \<and> (applyOffsetAndMerge raw off g n = map Some xs \<longrightarrow>
      (\<forall>h\<in>set xs. 0 \<le> h \<and> h < n \<and> h - off \<in> set raw))
   \<and> res_hs (applyHsToExistingResult res hs nPoints)
       = filter (\<lambda>i. 0 \<le> i \<and> i < int (length (res_envRaw res))) hs
   \<and> res_envRaw (applyHsToExistingResult res hs nPoints) = res_envRaw res
   \<and> (\<forall>h\<in>set (res_hs (applyHsToExistingResult res hs nPoints)).
        0 \<le> h \<and> h < int (length (res_envRaw res)))"
proof -
  have p2: "(\<forall>h\<in>set (det_hs r). 0 \<le> h \<and> h < int (length env))
      \<and> (\<forall>i. hd (det_hs r) \<le> i \<and> i < last (det_hs r) \<longrightarrow> 0 \<le> i \<and> i < int (length env))"
    if "detectHS_P2 env fs opts = Inr r"
  proof -
    have ok: "2 \<le> length (det_hs r)" "\<forall>h\<in>set (det_hs r). 0 \<le> h \<and> h < int (length env)"
      using detectHS_P2_eventsOK [OF that] by (simp_all add: eventsOK_def)
    then have ne: "det_hs r \<noteq> []" by auto
    have "0 \<le> hd (det_hs r)" "last (det_hs r) < int (length env)"
      using ok(2) hd_in_set [OF ne] last_in_set [OF ne] by auto
    then show ?thesis using ok(2) by auto
  qed
  have a3: "\<forall>h\<in>set (det_hs r3). 0 \<le> h \<and> h < int (length env)"
    if "detectHS_A3 env fs opts = Inr r3"
    using detectHS_A3_eventsOK [OF that] by (simp add: eventsOK_def)
  have a1: "\<forall>h\<in>set (det_hs r1). 0 \<le> h \<and> h < int (length env)"
    if "detectHS_A1 env fs opts1 = Inr r1"
    using detectHS_A1_eventsOK [OF that] by (simp add: eventsOK_def)
  have om: "\<forall>h\<in>set xs. 0 \<le> h \<and> h < n \<and> h - off \<in> set raw"
    if "applyOffsetAndMerge raw off g n = map Some xs"
    using applyOffsetAndMerge_Some [OF that] by simp
  have ah: "\<forall>h\<in>set (res_hs (applyHsToExistingResult res hs nPoints)).
        0 \<le> h \<and> h < int (length (res_envRaw res))"
    by (simp add: applyHsToExistingResult_hs)
  show ?thesis
    using p2 a3 a1 om ah applyHsToExistingResult_hs [of res hs nPoints]
    by blast
qed

theorem C10_events_in_range_witness:
  "map_sum id det_hs (detectHS_P2 env_mad 10 opts_ex) = Inr [3, 7]
   \<and> length env_mad = 10
   \<and> (\<exists>h. h \<in> set [3, 7 :: int] \<and> 0 \<le> h \<and> h < 10)
   \<and> applyOffsetAndMerge [1, 4, 9] 2 3 10 = map Some [3, 6]
   \<and> (\<exists>h. h \<in> set [3, 6 :: int] \<and> h - 2 \<in> set [1, 4, 9 :: int])
   \<and> res_hs (applyHsToExistingResult
        \<lparr>res_t = [], res_envRaw = [Fin 1, Fin 2, Fin 3], res_envPct = [], res_hs = [],
          res_k = KNum 2, res_thr = Fin 1, res_grid = [], res_cycles = [], res_mean = [],
          res_sd = []\<rparr> [- 1, 0, 2, 3, 7] 3) = [0, 2]"
proof -
  let ?res = "\<lparr>res_t = [], res_envRaw = [Fin 1, Fin 2, Fin 3], res_envPct = [], res_hs = [],
          res_k = KNum 2, res_thr = Fin 1, res_grid = [], res_cycles = [], res_mean = [],
          res_sd = []\<rparr>"
  note inst = C10_events_in_range [of env_mad 10 opts_ex _ _ opts1_ex _ "[1, 4, 9]" 2 3 10 "[3, 6]"
      ?res "[- 1, 0, 2, 3, 7]" 3]
  have len: "length env_mad = 10" by (simp add: env_mad_def)
  have om: "applyOffsetAndMerge [1, 4, 9] 2 3 10 = map Some [3, 6]"
    by (simp add: applyOffsetAndMerge_def)
  have "\<forall>h\<in>set [3, 7 :: int]. 0 \<le> h \<and> h < 10"
    using inst detectHS_P2_env_mad len by simp
  then have a: "\<exists>h. h \<in> set [3, 7 :: int] \<and> 0 \<le> h \<and> h < 10" by auto
  have "\<forall>h\<in>set [3, 6 :: int]. 0 \<le> h \<and> h < 10 \<and> h - 2 \<in> set [1, 4, 9 :: int]"
    using inst om by blast
  then have b: "\<exists>h. h \<in> set [3, 6 :: int] \<and> h - 2 \<in> set [1, 4, 9 :: int]" by auto
  have c: "res_hs (applyHsToExistingResult ?res [- 1, 0, 2, 3, 7] 3) = [0, 2]"
    using inst by simp
  show ?thesis
    unfolding detectHS_P2_env_mad using len a b c om by simp
qed

text \<open>
  C3 (amended). In the peak-based detector, when an event lies closer than \<open>minGap\<close> to the
  last kept one, \<open>mergeByMinGap\<close> keeps the one with the strictly higher burst amplitude
  and the earlier one on a tie; over a whole list, no event is stronger than every kept
  event. The offset-and-merge step of the detectors with a peak fallback and the merge of
  the onset-only detector carry no amplitude: of two events closer than \<open>minGap\<close> they
  keep the earlier one, whatever the envelope.
\<close>
theorem C3_merge_keeps:
  "(h2 - h1 < g \<longrightarrow>
      mergeByMinGap g [(h1, s1), (h2, s2)] = (if jgt s2 s1 then [(h2, s2)] else [(h1, s1)]))
   \<and> (\<forall>e\<in>set evs. \<exists>k\<in>set (mergeByMinGap g evs). \<not> jgt (snd e) (snd k))
   \<and> (sorted (map fst evs) \<longrightarrow> set (mergeByMinGap g evs) \<subseteq> set evs)
   \<and> (h1 \<le> h2 \<and> h2 - h1 < g \<and> 0 \<le> h1 + off \<and> h2 + off < n \<longrightarrow>
        applyOffsetAndMerge [h1, h2] off g n = [Some (h1 + off)])
   \<and> (h2 - h1 < g \<longrightarrow> mergeLoop [h1] [h2] g = [h1])"
  using mergeByMinGap_pair [of h2 h1 g s1 s2] mergeByMinGap_dominates [of evs g]
    mergeByMinGap_inv [of evs g] applyOffsetAndMerge_pair [of h1 h2 g off n]
    mergeLoop_pair [of h2 h1 g]
  by blast

theorem C3_merge_keeps_witness:
  "mergeByMinGap 3 [(1, Fin 1), (3, Fin 5)] = [(3, Fin 5)]
   \<and> mergeByMinGap 3 [(1, Fin 5), (3, Fin 1)] = [(1, Fin 5)]
   \<and> mergeByMinGap 3 [(1, Fin 2), (3, Fin 2)] = [(1, Fin 2)]
   \<and> applyOffsetAndMerge [1, 3] 0 3 12 = [Some 1]
   \<and> mergeLoop [1] [3] 3 = [1]"
proof -
  have a: "mergeByMinGap 3 [(1, Fin 1), (3, Fin 5)] = [(3, Fin 5)]"
    using C3_merge_keeps [of 3 1 3 "Fin 1" "Fin 5" "[]" 0 12] by simp
  have b: "mergeByMinGap 3 [(1, Fin 5), (3, Fin 1)] = [(1, Fin 5)]"
    using C3_merge_keeps [of 3 1 3 "Fin 5" "Fin 1" "[]" 0 12] by simp
  have c: "mergeByMinGap 3 [(1, Fin 2), (3, Fin 2)] = [(1, Fin 2)]"
    using C3_merge_keeps [of 3 1 3 "Fin 2" "Fin 2" "[]" 0 12] by simp
  have d: "applyOffsetAndMerge [1, 3] 0 3 12 = [Some 1]" "mergeLoop [1] [3] 3 = [1]"
    using C3_merge_keeps [of 3 1 3 "Fin 2" "Fin 2" "[]" 0 12] by simp_all
  show ?thesis using a b c d by simp
qed

text \<open>
  The envelope has bursts at the samples 1, 3 and 8 with the amplitudes 1, 5 and 1, and
  the minimum gap is three samples. The detector keeps the onset 1 and drops the onset 3
  of the stronger burst.
\<close>
theorem C3_keeps_earlier_counterexample:
  "map_sum id det_hs (detectHS_P2 env_merge 10 opts_ex) = Inr [1, 8]
   \<and> applyOffsetAndMerge [1, 3, 8] 0 3 12 = [Some 1, Some 8]
   \<and> js_round (10 * minGapMs opts_ex / 1000) = 3
   \<and> arrayGet env_merge 1 = Fin 1 \<and> arrayGet env_merge 3 = Fin 5
   \<and> jgt (arrayGet env_merge 3) (arrayGet env_merge 1)"
proof -
  have r: "js_round (10 * minGapMs opts_ex / 1000) = 3" by (simp add: js_round_def opts_ex_def)
  have om: "applyOffsetAndMerge [1, 3, 8] 0 3 12 = [Some 1, Some 8]"
    by (simp add: applyOffsetAndMerge_def)
  have e: "arrayGet env_merge 1 = Fin 1" "arrayGet env_merge 3 = Fin 5"
    by (simp_all add: arrayGet_def env_merge_def)
  show ?thesis unfolding detectHS_P2_env_merge r om e by simp
qed





lemma not_jgt_finite_jle: "isFinite x \<Longrightarrow> \<not> jgt x (Fin c) \<Longrightarrow> jle x (Fin c)"
  by (cases x) (auto simp: jle_def)

text \<open>
  C5 (amended). For every finite envelope with at least two retained events whose
  reference is positive, where the reference is the maximum of the envelope over the
  samples from the first event up to, but not including, the last event, the
  percent-peak envelope is at most 100 on those samples and equals 100 exactly at one
  of them. Whenever the reference is non-positive or not finite, the output is all-NaN.
\<close>
theorem C5_percent_peak:
  "((\<forall>v\<in>set env. isFinite v) \<and> 2 \<le> length hs \<and> peakReference env hs = Fin r \<and> 0 < r \<longrightarrow>
      (\<forall>i. hd hs \<le> i \<and> i < last hs \<and> 0 \<le> i \<and> i < int (length env)
           \<longrightarrow> jle (arrayGet (percentPeak env hs) i) (Fin 100))
      \<and> (\<exists>i. hd hs \<le> i \<and> i < last hs \<and> 0 \<le> i \<and> i < int (length env)
           \<and> arrayGet (percentPeak env hs) i = Fin 100))
   \<and> (\<not> isFinite (peakReference env hs) \<or> jle (peakReference env hs) (Fin 0) \<longrightarrow>
      percentPeak env hs = replicate (length env) NaN)"
proof -
  have main: "(\<forall>i. hd hs \<le> i \<and> i < last hs \<and> 0 \<le> i \<and> i < int (length env)
           \<longrightarrow> jle (arrayGet (percentPeak env hs) i) (Fin 100))
      \<and> (\<exists>i. hd hs \<le> i \<and> i < last hs \<and> 0 \<le> i \<and> i < int (length env)
           \<and> arrayGet (percentPeak env hs) i = Fin 100)"
    if a: "(\<forall>v\<in>set env. isFinite v) \<and> 2 \<le> length hs \<and> peakReference env hs = Fin r \<and> 0 < r"
  proof -
    have len: "2 \<le> length hs" and ref: "peakReference env hs = Fin r" and pos: "0 < r"
      using a by auto
    have fin: "isFinite (arrayGet (percentPeak env hs) i)" if "0 \<le> i \<and> i < int (length env)" for i
    proof -
      have "nat i < length env" using that by auto
      then have "env ! nat i \<in> set env" by (rule nth_mem)
      then have "isFinite (env ! nat i)" using a by blast
      then obtain v where "env ! nat i = Fin v" by (cases "env ! nat i") auto
      moreover have "nat i < length env" using that by auto
      ultimately show ?thesis
        using that pos
        by (simp add: percentPeak_scaled [OF ref pos] arrayGet_def)
    qed
    show ?thesis
      using percentPeak_bound [OF len ref pos] fin not_jgt_finite_jle by blast
  qed
  show ?thesis using main percentPeak_all_NaN [of env hs] by blast
qed

theorem C5_percent_peak_witness:
  "peakReference [Fin 1, Fin 2, Fin 4, Fin 3] [0, 3] = Fin 4
   \<and> percentPeak [Fin 1, Fin 2, Fin 4, Fin 3] [0, 3] = [Fin 25, Fin 50, Fin 100, Fin 75]
   \<and> jle (arrayGet (percentPeak [Fin 1, Fin 2, Fin 4, Fin 3] [0, 3]) 1) (Fin 100)
   \<and> (\<exists>i. 0 \<le> i \<and> i < 3 \<and> arrayGet (percentPeak [Fin 1, Fin 2, Fin 4, Fin 3] [0, 3]) i = Fin 100)
   \<and> peakReference [Fin 0, Fin 0, Fin 0] [0, 2] = Fin 0
   \<and> percentPeak [Fin 0, Fin 0, Fin 0] [0, 2] = [NaN, NaN, NaN]"
proof -
  have ref: "peakReference [Fin 1, Fin 2, Fin 4, Fin 3] [0, 3] = Fin 4"
    by (simp add: peakReference_def arrayGet_def upto.simps)
  have pp: "percentPeak [Fin 1, Fin 2, Fin 4, Fin 3] [0, 3] = [Fin 25, Fin 50, Fin 100, Fin 75]"
    by (simp add: percentPeak_def ref jle_def)
  have ref0: "peakReference [Fin 0, Fin 0, Fin 0] [0, 2] = Fin 0"
    by (simp add: peakReference_def arrayGet_def upto.simps)
  have a: "(\<forall>i. 0 \<le> i \<and> i < 3 \<and> 0 \<le> i \<and> i < 4
           \<longrightarrow> jle (arrayGet (percentPeak [Fin 1, Fin 2, Fin 4, Fin 3] [0, 3]) i) (Fin 100))
      \<and> (\<exists>i. 0 \<le> i \<and> i < 3 \<and> 0 \<le> i \<and> i < 4
           \<and> arrayGet (percentPeak [Fin 1, Fin 2, Fin 4, Fin 3] [0, 3]) i = Fin 100)"
    using C5_percent_peak [of "[Fin 1, Fin 2, Fin 4, Fin 3]" "[0, 3]" 4] ref by simp
  then have b: "jle (arrayGet (percentPeak [Fin 1, Fin 2, Fin 4, Fin 3] [0, 3]) 1) (Fin 100)"
    by simp
  have c: "\<exists>i. 0 \<le> i \<and> i < 3 \<and> arrayGet (percentPeak [Fin 1, Fin 2, Fin 4, Fin 3] [0, 3]) i = Fin 100"
    using a by blast
  have d: "percentPeak [Fin 0, Fin 0, Fin 0] [0, 2] = [NaN, NaN, NaN]"
    using C5_percent_peak [of "[Fin 0, Fin 0, Fin 0]" "[0, 2]" 4] ref0
    by (simp add: jle_def numeral_3_eq_3)
  show ?thesis using ref pp b c ref0 d by simp
qed

text \<open>
  The envelope is finite, the events are 0 and 1, and the reference is \<open>env[0] = 1\<close>. The
  sample at the last event is scaled to 200, so over the closed span from the first to
  the last event the maximum of the percent-peak envelope is 200.
\<close>
theorem C5_closed_span_counterexample:
  "peakReference [Fin 1, Fin 2] [0, 1] = Fin 1
   \<and> percentPeak [Fin 1, Fin 2] [0, 1] = [Fin 100, Fin 200]
   \<and> mathMax (map (arrayGet (percentPeak [Fin 1, Fin 2] [0, 1])) [0..1]) = Fin 200"
proof -
  have ref: "peakReference [Fin 1, Fin 2] [0, 1] = Fin 1"
    by (simp add: peakReference_def arrayGet_def upto.simps)
  have pp: "percentPeak [Fin 1, Fin 2] [0, 1] = [Fin 100, Fin 200]"
    by (simp add: percentPeak_def ref jle_def)
  show ?thesis unfolding pp ref
    by (simp add: mathMax_def jmax2_def arrayGet_def upto.simps)
qed

lemma finites_length_column:
  assumes "\<forall>c\<in>set cycles. isFinite (arrayGet c (int j))"
  shows "length (finites (column cycles j)) = length cycles"
proof -
  have "\<forall>v\<in>set (column cycles j). isFinite v" using assms by (auto simp: column_def)
  then have "map Fin (finites (column cycles j)) = column cycles j" by (rule finites_all_Fin)
  then have "length (map Fin (finites (column cycles j))) = length (column cycles j)" by simp
  then show ?thesis by (simp add: column_def)
qed

text \<open>
  C4 (amended). For every non-empty Cycle Set and every grid point \<open>j\<close>, with \<open>vs\<close> the
  finite contributions at \<open>j\<close>: the mean of \<open>meanAndSD\<close> is NaN if and only if \<open>vs\<close> is
  empty and is otherwise the arithmetic mean of \<open>vs\<close>; its SD is NaN if and only if \<open>vs\<close>
  has fewer than two values and is otherwise the population standard deviation of \<open>vs\<close>
  (divisor \<open>n\<close>). \<open>meanStdOfCycles\<close> excludes nothing: when every contribution at \<open>j\<close> is
  finite and there are at least two cycles its SD is the sample standard deviation
  (divisor \<open>n - 1\<close>), and one NaN contribution at \<open>j\<close> makes both its mean and its SD NaN.
\<close>
theorem C4_mean_and_sd:
  assumes "cycles \<noteq> []" and "j < length (hd cycles)"
  shows "(fst (meanAndSD cycles) ! j = NaN \<longleftrightarrow> finites (column cycles j) = [])
    \<and> (finites (column cycles j) \<noteq> [] \<longrightarrow>
         fst (meanAndSD cycles) ! j
         = Fin (sum_list (finites (column cycles j)) / real (length (finites (column cycles j)))))
    \<and> (snd (meanAndSD cycles) ! j = NaN \<longleftrightarrow> length (finites (column cycles j)) < 2)
    \<and> (2 \<le> length (finites (column cycles j)) \<longrightarrow>
         snd (meanAndSD cycles) ! j = Fin (populationSD (finites (column cycles j))))
    \<and> ((\<forall>c\<in>set cycles. isFinite (arrayGet c (int j))) \<and> 2 \<le> length cycles \<longrightarrow>
         (\<exists>m s. meanStdOfCycles cycles = Some (m, s)
            \<and> m ! j = Fin (sum_list (finites (column cycles j)) / real (length cycles))
            \<and> s ! j = Fin (sampleSD (finites (column cycles j)))))
    \<and> ((\<exists>c\<in>set cycles. arrayGet c (int j) = NaN) \<longrightarrow>
         (\<exists>m s. meanStdOfCycles cycles = Some (m, s) \<and> m ! j = NaN \<and> s ! j = NaN))"
proof -
  let ?vs = "finites (column cycles j)"
  have m: "fst (meanAndSD cycles) ! j = meanAt cycles j"
    and s: "snd (meanAndSD cycles) ! j = sdAt cycles j"
    using meanAndSD_nth [OF assms] by auto
  have c1: "fst (meanAndSD cycles) ! j = NaN \<longleftrightarrow> ?vs = []"
    unfolding m by (simp add: meanAt_value)
  have c2: "?vs \<noteq> [] \<longrightarrow> fst (meanAndSD cycles) ! j = Fin (sum_list ?vs / real (length ?vs))"
    unfolding m by (simp add: meanAt_value)
  have c3: "snd (meanAndSD cycles) ! j = NaN \<longleftrightarrow> length ?vs < 2"
    unfolding s by (simp add: sdAt_value)
  have c4: "2 \<le> length ?vs \<longrightarrow> snd (meanAndSD cycles) ! j = Fin (populationSD ?vs)"
    unfolding s by (simp add: sdAt_value)
  have c5: "\<exists>m s. meanStdOfCycles cycles = Some (m, s)
            \<and> m ! j = Fin (sum_list ?vs / real (length cycles))
            \<and> s ! j = Fin (sampleSD ?vs)"
    if fin: "\<forall>c\<in>set cycles. isFinite (arrayGet c (int j))" and n: "2 \<le> length cycles"
  proof -
    have len: "length ?vs = length cycles" using fin by (rule finites_length_column)
    have d: "real (max 1 (length cycles - 1)) = real (length cycles) - 1" using n by auto
    show ?thesis
      using meanStdOfCycles_finite [OF assms fin] unfolding sampleSD_def len d by blast
  qed
  have c6: "(\<exists>c\<in>set cycles. arrayGet c (int j) = NaN) \<longrightarrow>
         (\<exists>m s. meanStdOfCycles cycles = Some (m, s) \<and> m ! j = NaN \<and> s ! j = NaN)"
    using meanStdOfCycles_NaN [OF assms] by blast
  show ?thesis using c1 c2 c3 c4 c5 c6 by blast
qed

theorem C4_mean_and_sd_witness:
  "fst (meanAndSD [[Fin 0, NaN], [Fin 2, NaN], [NaN, Fin 5]]) ! 0 = Fin 1
   \<and> snd (meanAndSD [[Fin 0, NaN], [Fin 2, NaN], [NaN, Fin 5]]) ! 0 = Fin (populationSD [0, 2])
   \<and> fst (meanAndSD [[Fin 0, NaN], [Fin 2, NaN], [NaN, Fin 5]]) ! 1 = Fin 5
   \<and> snd (meanAndSD [[Fin 0, NaN], [Fin 2, NaN], [NaN, Fin 5]]) ! 1 = NaN
   \<and> (\<exists>m s. meanStdOfCycles [[Fin 0], [Fin 2]] = Some (m, s)
         \<and> m ! 0 = Fin 1 \<and> s ! 0 = Fin (sampleSD [0, 2]))
   \<and> (\<exists>m s. meanStdOfCycles [[Fin 0], [NaN]] = Some (m, s) \<and> m ! 0 = NaN \<and> s ! 0 = NaN)"
proof -
  let ?cs = "[[Fin 0, NaN], [Fin 2, NaN], [NaN, Fin 5]]"
  have v0: "finites (column ?cs 0) = [0, 2]" by (simp add: column_def arrayGet_def)
  have v1: "finites (column ?cs 1) = [5]" by (simp add: column_def arrayGet_def)
  have a: "fst (meanAndSD ?cs) ! 0 = Fin 1
     \<and> snd (meanAndSD ?cs) ! 0 = Fin (populationSD [0, 2])"
    using C4_mean_and_sd [of ?cs 0] unfolding v0 by simp
  have b: "fst (meanAndSD ?cs) ! 1 = Fin 5 \<and> snd (meanAndSD ?cs) ! 1 = NaN"
    using C4_mean_and_sd [of ?cs 1] unfolding v1 by simp
  have w0: "finites (column [[Fin 0], [Fin 2]] 0) = [0, 2]" by (simp add: column_def arrayGet_def)
  have c: "\<exists>m s. meanStdOfCycles [[Fin 0], [Fin 2]] = Some (m, s)
         \<and> m ! 0 = Fin 1 \<and> s ! 0 = Fin (sampleSD [0, 2])"
    using C4_mean_and_sd [of "[[Fin 0], [Fin 2]]" 0] unfolding w0 by (simp add: arrayGet_def)
  have d: "\<exists>m s. meanStdOfCycles [[Fin 0], [NaN]] = Some (m, s) \<and> m ! 0 = NaN \<and> s ! 0 = NaN"
    using C4_mean_and_sd [of "[[Fin 0], [NaN]]" 0] by (simp add: arrayGet_def)
  show ?thesis using a b c d by blast
qed

text \<open>
  Two cycles contribute 0 and 2 at the only grid point. \<open>meanAndSD\<close> returns the SD 1, the
  square root of \<open>(1 + 1) / 2\<close>; the sample standard deviation of 0 and 2 is the square
  root of 2.
\<close>
theorem C4_population_sd_counterexample:
  "meanAndSD [[Fin 0], [Fin 2]] = ([Fin 1], [Fin 1])
   \<and> finites (column [[Fin 0], [Fin 2]] 0) = [0, 2]
   \<and> sampleSD [0, 2] = sqrt 2
   \<and> snd (meanAndSD [[Fin 0], [Fin 2]]) ! 0 \<noteq> Fin (sampleSD [0, 2])"
proof -
  have a: "meanAndSD [[Fin 0], [Fin 2]] = ([Fin 1], [Fin 1])"
    by (simp add: meanAndSD_def meanAt_def sdAt_def column_def arrayGet_def jsub_def)
  have b: "finites (column [[Fin 0], [Fin 2]] 0) = [0, 2]" by (simp add: column_def arrayGet_def)
  have c: "sampleSD [0, 2] = sqrt 2" by (simp add: sampleSD_def)
  have "sqrt 2 \<noteq> (1 :: real)" by simp
  then show ?thesis unfolding a c using b by simp
qed

lemma varRatioFinite_replicate_Fin: "0 < n \<Longrightarrow> varRatioFinite (replicate n (Fin a)) = 1"
  by (simp add: varRatioFinite_def finites_replicate_Fin)

text \<open>
  C6 (amended). The hardened pipeline fails with an insufficient-data error, before any
  filtering or detection, whenever the input is shorter than two seconds of samples. For
  an input that passes the length floor and the 95 percent validity floor it proceeds to
  filtering and detection, on the sanitized and centred signal, exactly when both cutoff
  frequencies are below the Nyquist frequency; with a high-pass or low-pass cutoff at or
  above it the pipeline fails with a configuration error instead.
\<close>
theorem C6_pipeline_guards:
  "(real (length x) < fs * 2 \<longrightarrow>
      computePipeline_P1 t x fs params expected = Inl InsufficientData_short
      \<or> computePipeline_P1 t x fs params expected = Inl InsufficientData_ratio)
   \<and> (fs * 2 \<le> real (length x) \<and> 0.95 \<le> varRatioFinite x
        \<and> p_hp params < fs / 2 \<and> p_lp params < fs / 2 \<longrightarrow>
      computePipeline_P1 t x fs params expected
      = detectAndNormalize_P1 t (map (\<lambda>v. jsub v (mean_P1 (sanitizeArray x))) (sanitizeArray x))
          1 fs params expected)
   \<and> (fs * 2 \<le> real (length x) \<and> 0.95 \<le> varRatioFinite x \<and> fs / 2 \<le> p_hp params \<longrightarrow>
      computePipeline_P1 t x fs params expected = Inl ConfigurationError_hp)
   \<and> (fs * 2 \<le> real (length x) \<and> 0.95 \<le> varRatioFinite x
        \<and> p_hp params < fs / 2 \<and> fs / 2 \<le> p_lp params \<longrightarrow>
      computePipeline_P1 t x fs params expected = Inl ConfigurationError_lp)"
proof -
  have a: "real (length x) < fs * 2 \<longrightarrow>
      computePipeline_P1 t x fs params expected = Inl InsufficientData_short
      \<or> computePipeline_P1 t x fs params expected = Inl InsufficientData_ratio"
    using computePipeline_P1_short [of x fs t params expected] by auto
  have b: "fs * 2 \<le> real (length x) \<and> 0.95 \<le> varRatioFinite x
        \<and> p_hp params < fs / 2 \<and> p_lp params < fs / 2 \<longrightarrow>
      computePipeline_P1 t x fs params expected
      = detectAndNormalize_P1 t (map (\<lambda>v. jsub v (mean_P1 (sanitizeArray x))) (sanitizeArray x))
          1 fs params expected"
    using computePipeline_P1_proceeds [of fs x params t expected] by blast
  have ne: "x \<noteq> []" if "0.95 \<le> varRatioFinite x"
    using that by (auto simp: varRatioFinite_def)
  have c: "fs * 2 \<le> real (length x) \<and> 0.95 \<le> varRatioFinite x \<and> fs / 2 \<le> p_hp params \<longrightarrow>
      computePipeline_P1 t x fs params expected = Inl ConfigurationError_hp"
    using ne
    by (auto simp: computePipeline_P1_def Let_def varRatioFinite_sanitized sanitizeArray_length)
  have d: "fs * 2 \<le> real (length x) \<and> 0.95 \<le> varRatioFinite x
        \<and> p_hp params < fs / 2 \<and> fs / 2 \<le> p_lp params \<longrightarrow>
      computePipeline_P1 t x fs params expected = Inl ConfigurationError_lp"
    using ne
    by (auto simp: computePipeline_P1_def Let_def varRatioFinite_sanitized sanitizeArray_length)
  show ?thesis using a b c d by blast
qed

theorem C6_pipeline_guards_witness:
  "(computePipeline_P1 [] (replicate 1999 (Fin 1)) 1000 params_ex None = Inl InsufficientData_short
      \<or> computePipeline_P1 [] (replicate 1999 (Fin 1)) 1000 params_ex None = Inl InsufficientData_ratio)
   \<and> varRatioFinite (replicate 2000 (Fin 1)) = 1
   \<and> computePipeline_P1 [] (replicate 2000 (Fin 1)) 1000 params_ex None
     = detectAndNormalize_P1 []
         (map (\<lambda>v. jsub v (mean_P1 (sanitizeArray (replicate 2000 (Fin 1)))))
            (sanitizeArray (replicate 2000 (Fin 1))))
         1 1000 params_ex None
   \<and> computePipeline_P1 [] (replicate 2000 (Fin 1)) 1000 (params_ex\<lparr>p_lp := 500\<rparr>) None
     = Inl ConfigurationError_lp"
proof -
  have r: "varRatioFinite (replicate 2000 (Fin 1)) = 1"
    by (rule varRatioFinite_replicate_Fin) simp
  have a: "computePipeline_P1 [] (replicate 1999 (Fin 1)) 1000 params_ex None = Inl InsufficientData_short
      \<or> computePipeline_P1 [] (replicate 1999 (Fin 1)) 1000 params_ex None = Inl InsufficientData_ratio"
    using C6_pipeline_guards [of "replicate 1999 (Fin 1)" 1000 "[]" params_ex None] by simp
  have b: "computePipeline_P1 [] (replicate 2000 (Fin 1)) 1000 params_ex None
     = detectAndNormalize_P1 []
         (map (\<lambda>v. jsub v (mean_P1 (sanitizeArray (replicate 2000 (Fin 1)))))
            (sanitizeArray (replicate 2000 (Fin 1))))
         1 1000 params_ex None"
    using C6_pipeline_guards [of "replicate 2000 (Fin 1)" 1000 "[]" params_ex None] r
    by (simp add: params_ex_def)
  have c: "computePipeline_P1 [] (replicate 2000 (Fin 1)) 1000 (params_ex\<lparr>p_lp := 500\<rparr>) None
     = Inl ConfigurationError_lp"
    using C6_pipeline_guards [of "replicate 2000 (Fin 1)" 1000 "[]" "params_ex\<lparr>p_lp := 500\<rparr>" None] r
    by (simp add: params_ex_def)
  show ?thesis using a r b c by blast
qed

text \<open>
  Two seconds of finite samples at 1000 Hz pass both floors, yet with a high-pass cutoff
  of 600 Hz the pipeline does not reach filtering and detection: it fails with the
  configuration error.
\<close>
theorem C6_configuration_counterexample:
  "2 * 1000 \<le> real (length (replicate 2000 (Fin 1 :: jsnum)))
   \<and> varRatioFinite (replicate 2000 (Fin 1)) = 1
   \<and> computePipeline_P1 [] (replicate 2000 (Fin 1)) 1000 params_hp_ex None
     = Inl ConfigurationError_hp
   \<and> computePipeline_P1 [] (replicate 2000 (Fin 1)) 1000 params_hp_ex None
     \<noteq> detectAndNormalize_P1 []
         (map (\<lambda>v. jsub v (mean_P1 (sanitizeArray (replicate 2000 (Fin 1)))))
            (sanitizeArray (replicate 2000 (Fin 1))))
         1 1000 params_hp_ex None"
proof -
  have r: "varRatioFinite (replicate 2000 (Fin 1)) = 1"
    by (rule varRatioFinite_replicate_Fin) simp
  have s: "sanitizeArray (replicate 2000 (Fin 1)) = replicate 2000 (Fin 1)"
    by (rule sanitizeArray_all_finite) simp
  have c: "computePipeline_P1 [] (replicate 2000 (Fin 1)) 1000 params_hp_ex None
     = Inl ConfigurationError_hp"
    unfolding computePipeline_P1_def Let_def s r by (simp add: params_hp_ex_def)
  have n: "Inl ConfigurationError_hp \<noteq> detectAndNormalize_P1 [] y 1 1000 params_hp_ex None"
    for y
    using detectAndNormalize_P1_error [of "[]" y 1 1000 params_hp_ex None ConfigurationError_hp]
    by auto
  have l: "2 * 1000 \<le> real (length (replicate 2000 (Fin 1 :: jsnum)))" by simp
  show ?thesis unfolding c by (intro conjI l r refl n)
qed








end
